theory Spec2Isabelle
  imports Main "HOL-Library.AList"
begin

section \<open>NeDBoose: schema validation, query execution and populate\<close>

subsection \<open>JavaScript values and documents\<close>

text \<open>
  The runtime values that documents hold. A number is kept as an integer (no claim
  depends on floating point), a \<open>Date\<close> by its time stamp, a zero-argument function
  (only used as a \<open>default\<close> generator) by the value its call returns. An object is its
  list of own properties in insertion order; its prototype is \<open>Object.prototype\<close>, as
  for every object literal and every document the storage engine returns. \<open>VProto k\<close> is
  the member \<open>k\<close> of \<open>Object.prototype\<close>, which a read of a property the object does not
  own yields: a function, or the prototype object itself for \<open>__proto__\<close>.
\<close>

datatype val =
    VUndef
  | VNull
  | VBool bool
  | VNum int
  | VStr string
  | VDate int
  | VArr "val list"
  | VObj "(string \<times> val) list"
  | VFun val
  | VProto string

type_synonym doc = "(string \<times> val) list"

text \<open>The constructor references a schema can name as \<open>type\<close>.\<close>

datatype jstype = TString | TNumber | TBoolean | TArray | TObject | TDate | TFunction

text \<open>\<open>v === undefined || v === null\<close>, which is also the negation of \<open>v != null\<close>.\<close>

fun nullish :: "val \<Rightarrow> bool" where
  "nullish VUndef = True"
| "nullish VNull = True"
| "nullish _ = False"

text \<open>Truthiness, as \<open>||\<close> and \<open>filter(x => x)\<close> test it.\<close>

fun truthy :: "val \<Rightarrow> bool" where
  "truthy VUndef = False"
| "truthy VNull = False"
| "truthy (VBool b) = b"
| "truthy (VNum n) = (n \<noteq> 0)"
| "truthy (VStr s) = (s \<noteq> [])"
| "truthy _ = True"

text \<open>\<open>value.constructor\<close> of a value that is neither undefined nor null.\<close>

fun constructor_of :: "val \<Rightarrow> jstype" where
  "constructor_of (VBool _) = TBoolean"
| "constructor_of (VNum _) = TNumber"
| "constructor_of (VStr _) = TString"
| "constructor_of (VDate _) = TDate"
| "constructor_of (VArr _) = TArray"
| "constructor_of (VFun _) = TFunction"
| "constructor_of (VProto k) = (if k = ''__proto__'' then TObject else TFunction)"
| "constructor_of _ = TObject"

text \<open>
  Primitive values are compared by value, objects (arrays, dates, documents, functions)
  by reference. Every object read from the store is a fresh copy, so two object values
  met during populate are never the same reference, except the members of
  \<open>Object.prototype\<close>, which all objects share: \<open>Set\<close> and \<open>Map\<close> (SameValueZero)
  identify two keys only when they are the same primitive or the same shared member.
\<close>

fun primitive :: "val \<Rightarrow> bool" where
  "primitive VUndef = True"
| "primitive VNull = True"
| "primitive (VBool _) = True"
| "primitive (VNum _) = True"
| "primitive (VStr _) = True"
| "primitive _ = False"

fun shared :: "val \<Rightarrow> bool" where
  "shared (VProto _) = True"
| "shared _ = False"

definition same_value_zero :: "val \<Rightarrow> val \<Rightarrow> bool" where
  "same_value_zero a b = ((primitive a \<or> shared a) \<and> a = b)"

text \<open>The property names of \<open>Object.prototype\<close>.\<close>

definition object_prototype_names :: "string list" where
  "object_prototype_names =
     [''constructor'', ''toString'', ''toLocaleString'', ''valueOf'', ''hasOwnProperty'',
      ''isPrototypeOf'', ''propertyIsEnumerable'', ''__proto__'', ''__defineGetter__'',
      ''__defineSetter__'', ''__lookupGetter__'', ''__lookupSetter__'']"

definition inherited :: "string \<Rightarrow> val" where
  "inherited k = (if k \<in> set object_prototype_names then VProto k else VUndef)"

text \<open>\<open>doc[key]\<close>: the own property, else the member of the prototype, else
  undefined.\<close>

definition doc_get :: "doc \<Rightarrow> string \<Rightarrow> val" where
  "doc_get d k = (case map_of d k of None \<Rightarrow> inherited k | Some v \<Rightarrow> v)"

text \<open>\<open>doc[key] = v\<close>: an existing property keeps its place, a new one goes last. (An
  assignment to \<open>__proto__\<close>, which replaces the prototype, is not represented: the key
  is taken as any other.)\<close>

definition doc_set :: "doc \<Rightarrow> string \<Rightarrow> val \<Rightarrow> doc" where
  "doc_set d k v = AList.update k v d"

text \<open>\<open>Object.assign(target, ...sources)\<close>: every own property of every source is
  assigned to the target, in order; the sources are only read.\<close>

definition object_assign :: "doc \<Rightarrow> doc list \<Rightarrow> doc" where
  "object_assign target sources =
     fold (\<lambda>src t. fold (\<lambda>(k, v) t'. doc_set t' k v) src t) sources target"

definition doc_id :: "doc \<Rightarrow> val" where
  "doc_id d = doc_get d ''_id''"

subsection \<open>Errors\<close>

text \<open>
  The code throws \<open>Error\<close> with four messages; they are told apart by the kinds the
  specification names: \<open>Field 'k' is required\<close>, \<open>Field 'k' should be of type T\<close>,
  \<open>Field 'f' must have a ref property\<close>, \<open>Model 'r' not found\<close>. A failure of the
  storage engine rejects the promise with the engine's error.
\<close>

datatype error =
    RequiredFieldMissing string
  | TypeMismatch string jstype
  | MissingRef string
  | UnknownModel string
  | StorageError

subsection \<open>Schema\<close>

text \<open>
  A field definition. An absent \<open>default\<close> is \<open>VUndef\<close> (the code tests
  \<open>field.default !== undefined\<close>), an absent \<open>ref\<close> or \<open>ttl\<close> is \<open>None\<close>, an absent flag
  is \<open>False\<close>. The schema definition lists its fields in the order \<open>for ... in\<close>
  enumerates them.
\<close>

record field_def =
  ftype :: jstype
  required :: bool
  default_v :: val
  ref :: "string option"
  unique :: bool
  index_f :: bool
  ttl :: "int option"

type_synonym definition_t = "(string \<times> field_def) list"

text \<open>The value of a field after the default has been applied (lines 206 to 211).\<close>

definition apply_default :: "field_def \<Rightarrow> val \<Rightarrow> val" where
  "apply_default fld v =
     (if nullish v \<and> default_v fld \<noteq> VUndef
      then (case default_v fld of VFun r \<Rightarrow> r | lit \<Rightarrow> lit)
      else v)"

text \<open>The loop of \<open>Schema.validate\<close> over the declared fields, \<open>result\<close> being the
  object it fills.\<close>

fun validate_loop :: "definition_t \<Rightarrow> doc \<Rightarrow> doc \<Rightarrow> error + doc" where
  "validate_loop [] d result = Inr result"
| "validate_loop ((key, fld) # rest) d result =
     (let v = apply_default fld (doc_get d key) in
      if required fld \<and> nullish v then Inl (RequiredFieldMissing key)
      else if \<not> nullish v \<and> constructor_of v \<noteq> ftype fld
        then Inl (TypeMismatch key (ftype fld))
      else validate_loop rest d (if v \<noteq> VUndef then doc_set result key v else result))"

definition validate :: "definition_t \<Rightarrow> doc \<Rightarrow> error + doc" where
  "validate def d =
     (case validate_loop def d [] of
        Inl e \<Rightarrow> Inl e
      | Inr result \<Rightarrow> Inr (object_assign [] [d, result]))"







subsection \<open>Storage engine\<close>

text \<open>
  The storage engine (\<open>@seald-io/nedb\<close>) is an external collaborator; the code reaches it
  through \<open>find\<close> with a cursor, \<open>findOne\<close> and \<open>update\<close>. It is modelled by its
  documented contract. A collection is the list of its documents in the order the engine
  enumerates them. A query object is kept by the predicate the engine's matcher computes
  from it, except the one query the code builds itself, \<open>{ _id: { $in: ids } }\<close>, which
  matches a document whose identifier equals one of \<open>ids\<close> (undefined equals nothing). A
  sort specification is kept by the reordering the engine computes from it.
\<close>

datatype selector = Filter "doc \<Rightarrow> bool" | IdIn "val list"

fun matches :: "selector \<Rightarrow> doc \<Rightarrow> bool" where
  "matches (Filter p) d = p d"
| "matches (IdIn ids) d = (doc_id d \<noteq> VUndef \<and> doc_id d \<in> set ids)"

type_synonym sortspec = "doc list \<Rightarrow> doc list"

record cursor =
  c_selector :: selector
  c_sort :: "sortspec option"
  c_skip :: "nat option"
  c_limit :: "nat option"

text \<open>The cursor's \<open>exec\<close>: match, sort, then skip and limit (a limit of 0 is no limit).\<close>

definition cursor_exec :: "doc list \<Rightarrow> cursor \<Rightarrow> doc list" where
  "cursor_exec coll c =
     (let res = filter (matches (c_selector c)) coll;
          res = (case c_sort c of None \<Rightarrow> res | Some s \<Rightarrow> s res);
          res = (case c_skip c of None \<Rightarrow> res | Some n \<Rightarrow> drop n res)
      in case c_limit c of None \<Rightarrow> res | Some n \<Rightarrow> if n = 0 then res else take n res)"

definition engine_findOne :: "doc list \<Rightarrow> selector \<Rightarrow> doc option" where
  "engine_findOne coll sel = List.find (matches sel) coll"

text \<open>
  \<open>update(query, { $set: patch }, options)\<close>. The engine walks the collection and selects
  a matching document when \<open>options.multi\<close> is set or none has been selected yet. For
  every selected document it builds the modified copy: \<open>$set\<close> assigns every property of
  the patch and keeps the others. It rejects the update, and writes nothing, when a
  modified copy has a field name that begins with \<open>$\<close> or (below the top level) contains
  a dot, or when its \<open>_id\<close> is no longer the strictly same value. Otherwise all selected
  documents are replaced and their number is returned.

  The model is silent (\<open>None\<close>) where the engine does something this representation does
  not cover: a patch key with a dot, which \<open>$set\<close> reads as a path into nested objects;
  the engine's own keys \<open>$$date\<close>, \<open>$$deleted\<close>, \<open>$$indexCreated\<close>, \<open>$$indexRemoved\<close>; a
  patch value that holds undefined or a function, which the engine does not store;
  \<open>options.upsert\<close> when no document matches, which inserts one; a patched field that has
  a unique index, whose constraint may refuse the update.
\<close>

record update_options =
  multi :: bool
  upsert :: bool

fun val_keys :: "val \<Rightarrow> string list" where
  "val_keys (VArr xs) = concat (map val_keys xs)"
| "val_keys (VObj ps) = concat (map (\<lambda>p. fst p # val_keys (snd p)) ps)"
| "val_keys _ = []"

fun storable :: "val \<Rightarrow> bool" where
  "storable VUndef = False"
| "storable (VFun _) = False"
| "storable (VProto _) = False"
| "storable (VArr xs) = list_all storable xs"
| "storable (VObj ps) = list_all (\<lambda>p. storable (snd p)) ps"
| "storable _ = True"

definition engine_keys :: "string list" where
  "engine_keys = [''$$date'', ''$$deleted'', ''$$indexCreated'', ''$$indexRemoved'']"

definition starts_dollar :: "string \<Rightarrow> bool" where
  "starts_dollar k = (case k of [] \<Rightarrow> False | c # _ \<Rightarrow> c = CHR ''$'')"

definition has_dot :: "string \<Rightarrow> bool" where
  "has_dot k = (CHR ''.'' \<in> set k)"

text \<open>All field names of a patch, nested ones included.\<close>

definition patch_keys :: "doc \<Rightarrow> string list" where
  "patch_keys patch = map fst patch @ concat (map (\<lambda>p. val_keys (snd p)) patch)"

record index_spec =
  fieldName :: string
  ix_unique :: bool
  ix_index :: bool
  expireAfterSeconds :: "int option"

definition outside_model :: "index_spec list \<Rightarrow> doc \<Rightarrow> bool" where
  "outside_model ixs patch =
     (list_ex has_dot (map fst patch) \<or>
      list_ex (\<lambda>k. k \<in> set engine_keys) (patch_keys patch) \<or>
      \<not> list_all (\<lambda>p. storable (snd p)) patch \<or>
      list_ex (\<lambda>ix. ix_unique ix \<and> fieldName ix \<in> fst ` set patch) ixs)"

definition rejected_patch :: "doc \<Rightarrow> bool" where
  "rejected_patch patch =
     (list_ex starts_dollar (patch_keys patch) \<or>
      list_ex has_dot (concat (map (\<lambda>p. val_keys (snd p)) patch)))"

text \<open>\<open>obj._id !== newDoc._id\<close>, the modified copy being a deep copy of the document
  with the patch assigned.\<close>

definition id_changed :: "doc \<Rightarrow> doc \<Rightarrow> bool" where
  "id_changed patch d =
     (\<not> primitive (doc_id d) \<or>
      (case map_of patch ''_id'' of None \<Rightarrow> False | Some v \<Rightarrow> v \<noteq> doc_id d))"

definition set_modifier :: "doc \<Rightarrow> doc \<Rightarrow> doc" where
  "set_modifier patch d = fold (\<lambda>(k, v) t. doc_set t k v) patch d"

text \<open>Which documents of the collection the engine selects.\<close>

fun engine_select :: "selector \<Rightarrow> bool \<Rightarrow> nat \<Rightarrow> doc list \<Rightarrow> bool list" where
  "engine_select sel m n [] = []"
| "engine_select sel m n (d # ds) =
     (if matches sel d \<and> (m \<or> n = 0)
      then True # engine_select sel m (Suc n) ds
      else False # engine_select sel m n ds)"

definition engine_update ::
    "index_spec list \<Rightarrow> doc list \<Rightarrow> selector \<Rightarrow> doc \<Rightarrow> update_options \<Rightarrow>
     (error + nat \<times> doc list) option" where
  "engine_update ixs coll sel patch opts =
     (let marked = zip (engine_select sel (multi opts) 0 coll) coll;
          selected = map snd (filter fst marked)
      in if selected = [] then (if upsert opts then None else Some (Inr (0, coll)))
         else if outside_model ixs patch then None
         else if rejected_patch patch \<or> list_ex (id_changed patch) selected
           then Some (Inl StorageError)
         else Some (Inr (length selected,
                map (\<lambda>(b, d). if b then set_modifier patch d else d) marked)))"

subsection \<open>Models and the registry\<close>

record datastore =
  filename :: string
  inMemoryOnly :: bool
  autocompaction :: "int option"
  indexes :: "index_spec list"
  docs :: "doc list"

record model_options =
  o_filename :: "string option"
  o_inMemoryOnly :: bool
  o_autocompactionInterval :: "int option"

record model_obj =
  name :: string
  schema :: definition_t
  db :: datastore

text \<open>
  Model instances are objects with identity: the heap holds them, an instance is its
  address. \<open>modelRegistry\<close> is the module's \<open>Map\<close> from names to instances.
\<close>

record world =
  heap :: "model_obj list"
  modelRegistry :: "(string \<times> nat) list"

definition deref :: "world \<Rightarrow> nat \<Rightarrow> model_obj" where
  "deref w a = heap w ! a"

text \<open>The index declarations of the constructor (lines 360 to 368).\<close>

definition ensure_indexes :: "definition_t \<Rightarrow> index_spec list" where
  "ensure_indexes sdef =
     map (\<lambda>(key, fld). \<lparr>fieldName = key, ix_unique = unique fld, ix_index = index_f fld,
                          expireAfterSeconds = ttl fld\<rparr>)
       (filter (\<lambda>(key, fld). unique fld \<or> index_f fld \<or> ttl fld \<noteq> None) sdef)"

text \<open>
  \<open>new Model(name, schemaDef, options)\<close>: the instance is allocated, registered under
  its name (an existing entry is overwritten) and its datastore is opened, empty. The
  data directory and the file's former contents are outside the model.
\<close>

definition new_Model :: "world \<Rightarrow> string \<Rightarrow> definition_t \<Rightarrow> model_options \<Rightarrow> nat \<times> world" where
  "new_Model w nm sdef opts =
     (let a = length (heap w);
          ds = \<lparr>filename = (case o_filename opts of
                               None \<Rightarrow> ''data/'' @ nm @ ''.db''
                             | Some f \<Rightarrow> if f = [] then ''data/'' @ nm @ ''.db'' else f),
                inMemoryOnly = o_inMemoryOnly opts,
                autocompaction = (case o_autocompactionInterval opts of
                               None \<Rightarrow> None
                             | Some n \<Rightarrow> if n = 0 then None else Some n),
                indexes = ensure_indexes sdef,
                docs = []\<rparr>;
          m = \<lparr>name = nm, schema = sdef, db = ds\<rparr>
      in (a, w\<lparr>heap := heap w @ [m],
               modelRegistry := AList.update nm a (modelRegistry w)\<rparr>))"

text \<open>The exported factory \<open>model(name, schemaDef, options)\<close>.\<close>

definition model :: "world \<Rightarrow> string \<Rightarrow> definition_t \<Rightarrow> model_options \<Rightarrow> nat \<times> world" where
  "model w nm sdef opts =
     (case map_of (modelRegistry w) nm of
        Some a \<Rightarrow> (a, w)
      | None \<Rightarrow> new_Model w nm sdef opts)"

text \<open>\<open>Model.update\<close>: the patch goes to the engine as \<open>{ $set: update }\<close>, the options
  unchanged; the promise resolves to the engine's count or rejects with its error.\<close>

definition update ::
    "world \<Rightarrow> nat \<Rightarrow> selector \<Rightarrow> doc \<Rightarrow> update_options \<Rightarrow> (error + nat) option \<times> world" where
  "update w a sel patch opts =
     (case engine_update (indexes (db (deref w a))) (docs (db (deref w a))) sel patch opts of
        None \<Rightarrow> (None, w)
      | Some (Inl e) \<Rightarrow> (Some (Inl e), w)
      | Some (Inr (n, coll')) \<Rightarrow>
          (Some (Inr n),
           w\<lparr>heap := (heap w)[a := (deref w a)\<lparr>db := (db (deref w a))\<lparr>docs := coll'\<rparr>\<rparr>]\<rparr>))"

subsection \<open>Queries\<close>

text \<open>
  A \<open>Query\<close> holds the address of its model. \<open>sortObj\<close> is \<open>None\<close> for a value the
  code's test \<open>if (this.sortObj)\<close> takes as unset; \<open>skipCount\<close> and \<open>limitCount\<close> are
  \<open>None\<close> while they are null.
\<close>

record query =
  qmodel :: nat
  selector :: selector
  single :: bool
  populateFields :: "string list"
  sortObj :: "sortspec option"
  skipCount :: "nat option"
  limitCount :: "nat option"

definition new_Query :: "nat \<Rightarrow> selector \<Rightarrow> bool \<Rightarrow> query" where
  "new_Query a sel sng =
     \<lparr>qmodel = a, selector = sel, single = sng, populateFields = [],
      sortObj = None, skipCount = None, limitCount = None\<rparr>"

definition find :: "nat \<Rightarrow> selector \<Rightarrow> query" where
  "find a sel = new_Query a sel False"

definition findOne :: "nat \<Rightarrow> selector \<Rightarrow> query" where
  "findOne a sel = new_Query a sel True"

definition populate :: "query \<Rightarrow> string \<Rightarrow> query" where
  "populate q fld =
     (if fld \<in> set (populateFields q) then q
      else q\<lparr>populateFields := populateFields q @ [fld]\<rparr>)"

definition sort_q :: "query \<Rightarrow> sortspec option \<Rightarrow> query" where
  "sort_q q s = q\<lparr>sortObj := s\<rparr>"

definition skip :: "query \<Rightarrow> nat \<Rightarrow> query" where
  "skip q n = q\<lparr>skipCount := Some n\<rparr>"

definition limit :: "query \<Rightarrow> nat \<Rightarrow> query" where
  "limit q n = q\<lparr>limitCount := Some n\<rparr>"

definition buildCursor :: "query \<Rightarrow> cursor" where
  "buildCursor q =
     \<lparr>c_selector = selector q, c_sort = sortObj q, c_skip = skipCount q,
      c_limit = limitCount q\<rparr>"

text \<open>The first two lines of \<open>_execMany\<close>: the cursor is built and run on the
  collection of the query's model.\<close>

definition fetch :: "world \<Rightarrow> query \<Rightarrow> doc list" where
  "fetch w q = cursor_exec (docs (db (deref w (qmodel q)))) (buildCursor q)"

subsection \<open>Populate\<close>

text \<open>\<open>new Set(ids)\<close> spread into an array: the first occurrence of every key, in
  order.\<close>

definition set_add :: "val list \<Rightarrow> val \<Rightarrow> val list" where
  "set_add s x = (if list_ex (\<lambda>y. same_value_zero y x) s then s else s @ [x])"

definition new_Set :: "val list \<Rightarrow> val list" where
  "new_Set ids = fold (\<lambda>x s. set_add s x) ids []"

text \<open>\<open>new Map(pairs)\<close> and \<open>Map.get\<close>: a later pair with the same key replaces the
  value of the earlier one.\<close>

fun js_map_set :: "(val \<times> val) list \<Rightarrow> val \<Rightarrow> val \<Rightarrow> (val \<times> val) list" where
  "js_map_set [] k v = [(k, v)]"
| "js_map_set ((k', v') # m) k v =
     (if same_value_zero k' k then (k', v) # m else (k', v') # js_map_set m k v)"

definition new_Map :: "(val \<times> val) list \<Rightarrow> (val \<times> val) list" where
  "new_Map pairs = fold (\<lambda>(k, v) m. js_map_set m k v) pairs []"

definition js_map_get :: "(val \<times> val) list \<Rightarrow> val \<Rightarrow> val" where
  "js_map_get m k =
     (case List.find (\<lambda>(k', v). same_value_zero k' k) m of
        None \<Rightarrow> VUndef
      | Some (k', v) \<Rightarrow> v)"

text \<open>The identifiers one document contributes (lines 310 to 312), and the first loop
  over the result set.\<close>

definition ids_of :: "string \<Rightarrow> doc \<Rightarrow> val list" where
  "ids_of fld d =
     (case doc_get d fld of
        VArr xs \<Rightarrow> xs
      | v \<Rightarrow> if nullish v then [] else [v])"

definition gather_ids :: "string \<Rightarrow> doc list \<Rightarrow> val list" where
  "gather_ids fld ds = concat (map (ids_of fld) ds)"

text \<open>The rewriting of one document (lines 323 to 325).\<close>

definition assign_populated :: "(val \<times> val) list \<Rightarrow> string \<Rightarrow> doc \<Rightarrow> doc" where
  "assign_populated m fld d =
     (case doc_get d fld of
        VArr xs \<Rightarrow> doc_set d fld (VArr (filter truthy (map (js_map_get m) xs)))
      | v \<Rightarrow> doc_set d fld (let x = js_map_get m v in if truthy x then x else VNull))"

text \<open>
  One round of the loop of \<open>_populate\<close>, for one field. The result is the rewritten
  result set or the error thrown, together with the lookups issued against the storage
  engine: the field, the referenced model's name and the batch of identifiers.
  \<open>refModel.find(...).exec()\<close> is a many-mode query with nothing to populate, so it is the
  run of its cursor.
\<close>

type_synonym lookup = "string \<times> string \<times> val list"

definition populate_field ::
    "world \<Rightarrow> definition_t \<Rightarrow> string \<Rightarrow> doc list \<Rightarrow> (error + doc list) \<times> lookup list" where
  "populate_field w sdef fld ds =
     (case (case map_of sdef fld of None \<Rightarrow> None | Some fd \<Rightarrow> ref fd) of
        None \<Rightarrow> (Inl (MissingRef fld), [])
      | Some r \<Rightarrow>
          if r = [] then (Inl (MissingRef fld), [])
          else (case map_of (modelRegistry w) r of
             None \<Rightarrow> (Inl (UnknownModel r), [])
           | Some a \<Rightarrow>
               let ids = gather_ids fld ds;
                   uniqueIds = new_Set ids
               in if uniqueIds = [] then (Inr ds, [])
                  else
                    let fetched = fetch w (find a (IdIn uniqueIds));
                        m = new_Map (map (\<lambda>d. (doc_id d, VObj d)) fetched)
                    in (Inr (map (assign_populated m fld) ds), [(fld, r, uniqueIds)])))"

fun populate_docs ::
    "world \<Rightarrow> definition_t \<Rightarrow> string list \<Rightarrow> doc list \<Rightarrow> (error + doc list) \<times> lookup list" where
  "populate_docs w sdef [] ds = (Inr ds, [])"
| "populate_docs w sdef (fld # flds) ds =
     (case populate_field w sdef fld ds of
        (Inl e, tr) \<Rightarrow> (Inl e, tr)
      | (Inr ds', tr) \<Rightarrow>
          (case populate_docs w sdef flds ds' of (res, tr') \<Rightarrow> (res, tr @ tr')))"

subsection \<open>Execution\<close>

definition execMany :: "world \<Rightarrow> query \<Rightarrow> (error + doc list) \<times> lookup list" where
  "execMany w q =
     populate_docs w (schema (deref w (qmodel q))) (populateFields q) (fetch w q)"

definition findOneRaw :: "world \<Rightarrow> nat \<Rightarrow> selector \<Rightarrow> doc option" where
  "findOneRaw w a sel = engine_findOne (docs (db (deref w a))) sel"

text \<open>\<open>_execOne\<close> resolves to a document or to null. On the direct path the
  resolver rewrites the one document in place, so the document returned is the element of
  the populated one-element list.\<close>

definition execOne :: "world \<Rightarrow> query \<Rightarrow> (error + val) \<times> lookup list" where
  "execOne w q =
     (if sortObj q \<noteq> None \<or> skipCount q \<noteq> None then
        (case execMany w q of
           (Inl e, tr) \<Rightarrow> (Inl e, tr)
         | (Inr ds, tr) \<Rightarrow> (Inr (case ds of [] \<Rightarrow> VNull | d # _ \<Rightarrow> VObj d), tr))
      else
        (case findOneRaw w (qmodel q) (selector q) of
           None \<Rightarrow> (Inr VNull, [])
         | Some d \<Rightarrow>
             (case populate_docs w (schema (deref w (qmodel q))) (populateFields q) [d] of
                (Inl e, tr) \<Rightarrow> (Inl e, tr)
              | (Inr ds, tr) \<Rightarrow> (Inr (VObj (hd ds)), tr))))"

definition exec :: "world \<Rightarrow> query \<Rightarrow> (error + val) \<times> lookup list" where
  "exec w q =
     (if single q then execOne w q
      else (case execMany w q of
              (Inl e, tr) \<Rightarrow> (Inl e, tr)
            | (Inr ds, tr) \<Rightarrow> (Inr (VArr (map VObj ds)), tr)))"

subsection \<open>Notions the properties are stated with\<close>




text \<open>A document is the target of an identifier; an identifier has a target in a
  collection.\<close>

definition refers_to :: "val \<Rightarrow> doc \<Rightarrow> bool" where
  "refers_to ident d = (ident \<noteq> VUndef \<and> same_value_zero (doc_id d) ident)"

definition matched :: "doc list \<Rightarrow> val \<Rightarrow> bool" where
  "matched coll ident = list_ex (refers_to ident) coll"

text \<open>The document the batch lookup yields for an identifier: the collection's last
  target of it (its only one, as the engine keeps \<open>_id\<close> unique).\<close>

definition resolve :: "doc list \<Rightarrow> val \<Rightarrow> doc option" where
  "resolve coll ident =
     (if ident = VUndef then None
      else List.find (\<lambda>d. same_value_zero (doc_id d) ident) (rev coll))"

text \<open>The value a populated field receives, by the value it held: \<open>u\<close> is the batch of
  identifiers of the lookup.\<close>

definition populated_value :: "doc list \<Rightarrow> val list \<Rightarrow> val \<Rightarrow> val" where
  "populated_value coll u v =
     (case v of
        VArr xs \<Rightarrow> VArr (map VObj (List.map_filter (resolve coll) xs))
      | _ \<Rightarrow> (if v \<in> set u
              then (case resolve coll v of None \<Rightarrow> VNull | Some d \<Rightarrow> VObj d)
              else VNull))"

text \<open>The misconfiguration of a populated field, if any: steps 1 and 2 of the
  resolver.\<close>

definition config_error :: "world \<Rightarrow> definition_t \<Rightarrow> string \<Rightarrow> error option" where
  "config_error w sdef fld =
     (case map_of sdef fld of
        None \<Rightarrow> Some (MissingRef fld)
      | Some fd \<Rightarrow>
          (case ref fd of
             None \<Rightarrow> Some (MissingRef fld)
           | Some r \<Rightarrow>
               if r = [] then Some (MissingRef fld)
               else if map_of (modelRegistry w) r = None then Some (UnknownModel r)
               else None))"

text \<open>The collection a reference field points into.\<close>

definition ref_collection :: "world \<Rightarrow> definition_t \<Rightarrow> string \<Rightarrow> doc list" where
  "ref_collection w sdef fld =
     (case map_of sdef fld of
        None \<Rightarrow> []
      | Some fd \<Rightarrow>
          (case ref fd of
             None \<Rightarrow> []
           | Some r \<Rightarrow>
               (case map_of (modelRegistry w) r of
                  None \<Rightarrow> []
                | Some a \<Rightarrow> docs (db (deref w a)))))"

text \<open>Whether an execution reaches the resolver: always in many mode; in single mode
  when sort or skip is set or the direct fetch finds a document.\<close>

definition populate_reached :: "world \<Rightarrow> query \<Rightarrow> bool" where
  "populate_reached w q =
     (\<not> single q \<or> sortObj q \<noteq> None \<or> skipCount q \<noteq> None \<or>
      findOneRaw w (qmodel q) (selector q) \<noteq> None)"

text \<open>The first element of a many-mode result, or null.\<close>

fun first_or_null :: "error + val \<Rightarrow> error + val" where
  "first_or_null (Inl e) = Inl e"
| "first_or_null (Inr (VArr (x # xs))) = Inr x"
| "first_or_null (Inr v) = Inr VNull"

text \<open>The name of the model a reference field points to.\<close>

definition ref_name :: "definition_t \<Rightarrow> string \<Rightarrow> string" where
  "ref_name sdef fld =
     (case map_of sdef fld of
        None \<Rightarrow> []
      | Some fd \<Rightarrow> (case ref fd of None \<Rightarrow> [] | Some r \<Rightarrow> r))"

text \<open>The lookups an execution issued for one field.\<close>

definition lookups_for :: "string \<Rightarrow> lookup list \<Rightarrow> lookup list" where
  "lookups_for fld tr = filter (\<lambda>(g, r, u). g = fld) tr"

subsection \<open>Example data\<close>

text \<open>The models of the repository's \<open>examples/usage.js\<close> and of its README: authors
  refer to books. The second book identifier of the first author has no document.\<close>

definition ex_field :: field_def where
  "ex_field = \<lparr>ftype = TString, required = False, default_v = VUndef, ref = None,
               unique = False, index_f = False, ttl = None\<rparr>"

definition ex_book_schema :: definition_t where
  "ex_book_schema = [(''title'', ex_field\<lparr>required := True\<rparr>)]"

definition ex_author_schema :: definition_t where
  "ex_author_schema =
     [(''name'', ex_field\<lparr>required := True\<rparr>),
      (''books'', ex_field\<lparr>ftype := TArray, ref := Some ''Book'', default_v := VArr []\<rparr>),
      (''fav'', ex_field\<lparr>ref := Some ''Book''\<rparr>),
      (''editor'', ex_field\<lparr>ref := Some ''Editor''\<rparr>)]"

definition ex_book1 :: doc where
  "ex_book1 = [(''_id'', VStr ''b1''), (''title'', VStr ''Der Process'')]"

definition ex_book3 :: doc where
  "ex_book3 = [(''_id'', VStr ''b3''), (''title'', VStr ''Der Beweis'')]"

definition ex_author1 :: doc where
  "ex_author1 =
     [(''_id'', VStr ''a1''), (''name'', VStr ''Kafka''),
      (''books'', VArr [VStr ''b1'', VStr ''b2'', VStr ''b3''])]"

definition ex_author2 :: doc where
  "ex_author2 =
     [(''_id'', VStr ''a2''), (''name'', VStr ''Lamers''), (''books'', VArr []),
      (''fav'', VStr ''b9'')]"

definition ex_store :: "string \<Rightarrow> doc list \<Rightarrow> datastore" where
  "ex_store nm ds =
     \<lparr>filename = ''data/'' @ nm @ ''.db'', inMemoryOnly = False, autocompaction = None,
      indexes = [], docs = ds\<rparr>"

definition ex_world :: world where
  "ex_world =
     \<lparr>heap = [\<lparr>name = ''Author'', schema = ex_author_schema,
               db = ex_store ''Author'' [ex_author1, ex_author2]\<rparr>,
              \<lparr>name = ''Book'', schema = ex_book_schema,
               db = ex_store ''Book'' [ex_book1, ex_book3]\<rparr>],
      modelRegistry = [(''Author'', 0), (''Book'', 1)]\<rparr>"

definition ex_null_book :: doc where
  "ex_null_book = [(''_id'', VNull), (''title'', VStr ''Ohne Nummer'')]"

definition ex_null_world :: world where
  "ex_null_world =
     \<lparr>heap = [\<lparr>name = ''Author'', schema = ex_author_schema, db = ex_store ''Author'' []\<rparr>,
              \<lparr>name = ''Book'', schema = ex_book_schema,
               db = ex_store ''Book'' [ex_book1, ex_null_book]\<rparr>],
      modelRegistry = [(''Author'', 0), (''Book'', 1)]\<rparr>"

definition ex_null_authors :: "doc list" where
  "ex_null_authors =
     [[(''_id'', VStr ''a3''), (''name'', VStr ''Walser''), (''fav'', VNull)],
      [(''_id'', VStr ''a4''), (''name'', VStr ''Musil''), (''fav'', VArr [VNull])]]"

definition ex_all :: selector where
  "ex_all = Filter (\<lambda>d. True)"

definition ex_none :: selector where
  "ex_none = Filter (\<lambda>d. False)"

definition ex_input :: doc where
  "ex_input = [(''extra'', VNum 7), (''name'', VStr ''Kafka'')]"

definition ex_patch :: doc where
  "ex_patch = [(''name'', VStr ''N'')]"

definition ex_session_schema :: definition_t where
  "ex_session_schema = [(''token'', ex_field), (''user'', ex_field\<lparr>required := True\<rparr>)]"

definition ex_authors :: "doc list" where
  "ex_authors = [ex_author1, ex_author2]"

text \<open>The authors after \<open>populate('books')\<close> and \<open>populate('fav')\<close>, and the lookups that
  execution issues.\<close>

definition ex_populated :: "doc list" where
  "ex_populated =
     [[(''_id'', VStr ''a1''), (''name'', VStr ''Kafka''),
       (''books'', VArr [VObj ex_book1, VObj ex_book3]), (''fav'', VNull)],
      [(''_id'', VStr ''a2''), (''name'', VStr ''Lamers''), (''books'', VArr []),
       (''fav'', VNull)]]"

definition ex_lookups :: "lookup list" where
  "ex_lookups =
     [(''books'', ''Book'', [VStr ''b1'', VStr ''b2'', VStr ''b3'']),
      (''fav'', ''Book'', [VStr ''b9''])]"

text \<open>The authors after \<open>populate('fav')\<close> alone.\<close>

definition ex_fav_populated :: "doc list" where
  "ex_fav_populated =
     [[(''_id'', VStr ''a1''), (''name'', VStr ''Kafka''),
       (''books'', VArr [VStr ''b1'', VStr ''b2'', VStr ''b3'']), (''fav'', VNull)],
      [(''_id'', VStr ''a2''), (''name'', VStr ''Lamers''), (''books'', VArr []),
       (''fav'', VNull)]]"

text \<open>A sort specification that keeps the engine's order.\<close>

definition ex_sort :: sortspec where
  "ex_sort = (\<lambda>ds. ds)"

definition ex_options :: model_options where
  "ex_options = \<lparr>o_filename = None, o_inMemoryOnly = True, o_autocompactionInterval = None\<rparr>"

text \<open>The book schema of the README, with a generated default and a literal one.\<close>

definition ex_book_schema2 :: definition_t where
  "ex_book_schema2 =
     [(''title'', ex_field\<lparr>required := True\<rparr>),
      (''publishedAt'', ex_field\<lparr>ftype := TDate, default_v := VFun (VDate 42)\<rparr>),
      (''tags'', ex_field\<lparr>ftype := TArray, default_v := VArr []\<rparr>)]"

section \<open>Evaluating the examples\<close>

text \<open>
  The definitions a concrete run unfolds.
\<close>

lemmas ex_defs = ex_field_def ex_book_schema_def ex_author_schema_def ex_book1_def
  ex_book3_def ex_author1_def ex_author2_def ex_store_def ex_world_def ex_all_def
  ex_none_def ex_input_def ex_patch_def ex_session_schema_def ex_authors_def
  ex_populated_def ex_lookups_def ex_fav_populated_def ex_sort_def ex_options_def
  ex_book_schema2_def ex_null_book_def ex_null_world_def ex_null_authors_def

lemmas run_defs = exec_def execOne_def execMany_def fetch_def buildCursor_def
  cursor_exec_def findOneRaw_def engine_findOne_def deref_def populate_field_def
  find_def findOne_def new_Query_def populate_def sort_q_def limit_def skip_def
  gather_ids_def ids_of_def new_Set_def set_add_def new_Map_def js_map_get_def
  assign_populated_def doc_get_def doc_set_def doc_id_def same_value_zero_def
  validate_def apply_default_def object_assign_def Let_def inherited_def
  object_prototype_names_def

lemmas update_defs = update_def engine_update_def set_modifier_def outside_model_def
  rejected_patch_def id_changed_def patch_keys_def engine_keys_def starts_dollar_def has_dot_def

section \<open>Schema validation\<close>





subsection \<open>The run on the object store\<close>










subsection \<open>Required fields\<close>









text \<open>
  A declared key is read through the prototype chain: \<open>constructor\<close> becomes an own
  property of the output, and a required \<open>toString\<close> of type String is not missing, it is
  a function of the wrong type.
\<close>

lemma validate_inherited_key:
  "validate [(''constructor'', ex_field\<lparr>ftype := TFunction\<rparr>)] [(''a'', VNum 1)] =
     Inr [(''a'', VNum 1), (''constructor'', VProto ''constructor'')] \<and>
   validate [(''toString'', ex_field\<lparr>required := True\<rparr>)] [(''a'', VNum 1)] =
     Inl (TypeMismatch ''toString'' TString) \<and>
   validate [(''title'', ex_field\<lparr>required := True\<rparr>)] [(''a'', VNum 1)] =
     Inl (RequiredFieldMissing ''title'')"
  by (simp add: ex_defs run_defs)

section \<open>Models\<close>

text \<open>
  Claim C9. For every model name, a second call of the factory \<open>model\<close> with that name
  returns the very instance (the same address) the first call returned, and leaves the
  heap and the registry as the first call left them: the schema definition and the options
  of the second call are not used. The instance is the one registered under the name: when
  the name was free, the first call allocated it at a fresh address, with the name, the
  schema and the options of the first call, the indexes of that schema and no documents;
  when the name was taken, the first call returned the registered instance and changed
  nothing.
\<close>

theorem model_idempotent:
  "(case model w nm sdef opts of
      (a, w') \<Rightarrow>
        model w' nm sdef' opts' = (a, w') \<and>
        map_of (modelRegistry w') nm = Some a \<and>
        (if map_of (modelRegistry w) nm = None
         then a = length (heap w) \<and> heap w' = heap w @ [deref w' a] \<and>
              name (deref w' a) = nm \<and> schema (deref w' a) = sdef \<and>
              indexes (db (deref w' a)) = ensure_indexes sdef \<and>
              inMemoryOnly (db (deref w' a)) = o_inMemoryOnly opts \<and>
              docs (db (deref w' a)) = []
         else w' = w \<and> map_of (modelRegistry w) nm = Some a))"
proof (cases "map_of (modelRegistry w) nm")
  case None
  then show ?thesis
    by (simp add: model_def new_Model_def Let_def update_conv' deref_def)
next
  case (Some a)
  then show ?thesis by (simp add: model_def)
qed

text \<open>
  A second definition of \<open>Session\<close>, with another schema and other options.
\<close>

theorem model_idempotent_witness:
  "map_of (modelRegistry ex_world) ''Session'' = None \<and>
   fst (model ex_world ''Session'' ex_session_schema ex_options) = 2 \<and>
   model (snd (model ex_world ''Session'' ex_session_schema ex_options))
     ''Session'' ex_book_schema (ex_options\<lparr>o_inMemoryOnly := False\<rparr>) =
   model ex_world ''Session'' ex_session_schema ex_options \<and>
   map_of (modelRegistry (snd (model ex_world ''Session'' ex_session_schema ex_options)))
     ''Session'' = Some 2 \<and>
   schema (deref (snd (model ex_world ''Session'' ex_session_schema ex_options)) 2) =
     ex_session_schema \<and>
   inMemoryOnly (db (deref (snd (model ex_world ''Session'' ex_session_schema ex_options)) 2))"
proof -
  let ?r = "model ex_world ''Session'' ex_session_schema ex_options"
  have n: "map_of (modelRegistry ex_world) ''Session'' = None"
    by (simp add: ex_world_def)
  have f: "fst ?r = 2"
    by (simp add: model_def new_Model_def ex_world_def)
  then have r: "?r = (2, snd ?r)" by (simp add: prod_eq_iff)
  have o: "o_inMemoryOnly ex_options" by (simp add: ex_options_def)
  from model_idempotent [where w = ex_world and nm = "''Session''"
      and sdef = ex_session_schema and opts = ex_options and sdef' = ex_book_schema
      and opts' = "ex_options\<lparr>o_inMemoryOnly := False\<rparr>"] n o
  have "model (snd ?r) ''Session'' ex_book_schema (ex_options\<lparr>o_inMemoryOnly := False\<rparr>) =
          (2, snd ?r) \<and>
        map_of (modelRegistry (snd ?r)) ''Session'' = Some 2 \<and>
        schema (deref (snd ?r) 2) = ex_session_schema \<and>
        inMemoryOnly (db (deref (snd ?r) 2))"
    by (subst (asm) r) simp
  with n f r show ?thesis by simp
qed

subsection \<open>Update\<close>













text \<open>
  An operator key is rejected; a dotted top-level key and an upsert without a match are
  outside the model of the engine.
\<close>

lemma update_operator_key_rejected:
  "update ex_world 0 ex_all [(''$inc'', VNum 1)] \<lparr>multi = False, upsert = False\<rparr> =
     (Some (Inl StorageError), ex_world) \<and>
   update ex_world 0 ex_all [(''a.b'', VNum 1)] \<lparr>multi = False, upsert = False\<rparr> =
     (None, ex_world) \<and>
   update ex_world 0 ex_none ex_patch \<lparr>multi = False, upsert = True\<rparr> = (None, ex_world)"
  by (simp add: ex_defs run_defs update_defs)


section \<open>Populate\<close>

subsection \<open>Set and Map\<close>

lemma set_fold_set_add:
  "set (fold (\<lambda>x s. set_add s x) ids s0) = set s0 \<union> set ids"
proof (induction ids arbitrary: s0)
  case Nil
  then show ?case by simp
next
  case (Cons x ids)
  have "set (set_add s0 x) = insert x (set s0)"
    by (auto simp: set_add_def list_ex_iff same_value_zero_def)
  with Cons.IH [of "set_add s0 x"] show ?case by simp
qed

lemma set_new_Set: "set (new_Set ids) = set ids"
  by (simp add: new_Set_def set_fold_set_add)

lemma find_append:
  "List.find P (xs @ ys) = (case List.find P xs of None \<Rightarrow> List.find P ys | Some x \<Rightarrow> Some x)"
  by (induction xs) auto

lemma find_filter:
  "List.find Q (filter P xs) = List.find (\<lambda>x. P x \<and> Q x) xs"
  by (induction xs) auto

lemma find_map:
  "List.find Q (map g xs) = map_option g (List.find (\<lambda>x. Q (g x)) xs)"
  by (induction xs) auto

lemma js_map_get_set:
  "js_map_get (js_map_set m k v) k' =
     (if same_value_zero k k' then v else js_map_get m k')"
  by (induction m) (auto simp: js_map_get_def same_value_zero_def)

lemma js_map_get_fold:
  "js_map_get (fold (\<lambda>(k, v) m. js_map_set m k v) pairs m0) k' =
     (case List.find (\<lambda>(k, v). same_value_zero k k') (rev pairs) of
        None \<Rightarrow> js_map_get m0 k'
      | Some (k, v) \<Rightarrow> v)"
proof (induction pairs arbitrary: m0)
  case Nil
  then show ?case by simp
next
  case (Cons p pairs)
  obtain k v where p: "p = (k, v)" by (cases p)
  show ?case
    using Cons.IH [of "js_map_set m0 k v"]
    by (simp add: p find_append js_map_get_set split: option.splits)
qed

lemma js_map_get_new_Map:
  "js_map_get (new_Map pairs) k' =
     (case List.find (\<lambda>(k, v). same_value_zero k k') (rev pairs) of
        None \<Rightarrow> VUndef
      | Some (k, v) \<Rightarrow> v)"
proof -
  have "js_map_get [] k' = VUndef" by (simp add: js_map_get_def)
  then show ?thesis unfolding new_Map_def js_map_get_fold by (simp only:)
qed

subsection \<open>The batch lookup\<close>

lemma fetch_IdIn:
  "fetch w (find a (IdIn u)) = filter (matches (IdIn u)) (docs (db (deref w a)))"
  by (simp add: fetch_def find_def new_Query_def buildCursor_def cursor_exec_def)

lemma lookup_fetched:
  "js_map_get (new_Map (map (\<lambda>d. (doc_id d, VObj d)) (filter (matches (IdIn u)) coll))) x =
     (if x \<in> set u then (case resolve coll x of None \<Rightarrow> VUndef | Some d \<Rightarrow> VObj d)
      else VUndef)"
proof -
  let ?P = "\<lambda>d. matches (IdIn u) d \<and> same_value_zero (doc_id d) x"
  have get: "js_map_get (new_Map (map (\<lambda>d. (doc_id d, VObj d)) (filter (matches (IdIn u)) coll))) x =
      (case List.find ?P (rev coll) of None \<Rightarrow> VUndef | Some d \<Rightarrow> VObj d)"
  proof -
    have "rev (map (\<lambda>d. (doc_id d, VObj d)) (filter (matches (IdIn u)) coll)) =
          map (\<lambda>d. (doc_id d, VObj d)) (filter (matches (IdIn u)) (rev coll))"
      by (simp add: rev_map rev_filter)
    then have "List.find (\<lambda>(k, v). same_value_zero k x)
          (rev (map (\<lambda>d. (doc_id d, VObj d)) (filter (matches (IdIn u)) coll))) =
        map_option (\<lambda>d. (doc_id d, VObj d)) (List.find ?P (rev coll))"
      by (simp add: find_map find_filter)
    then show ?thesis
      unfolding js_map_get_new_Map by (simp split: option.splits)
  qed
  show ?thesis
  proof (cases "x \<in> set u \<and> x \<noteq> VUndef")
    case True
    then have "?P = (\<lambda>d. same_value_zero (doc_id d) x)"
      by (auto simp: same_value_zero_def)
    with True get show ?thesis by (simp add: resolve_def)
  next
    case False
    then have "?P = (\<lambda>d. False)"
      by (auto simp: same_value_zero_def)
    then have "List.find ?P (rev coll) = None"
      by (simp add: find_None_iff)
    with False get show ?thesis by (auto simp: resolve_def)
  qed
qed

lemma resolve_Some:
  "resolve coll x = Some d \<Longrightarrow> d \<in> set coll \<and> refers_to x d"
  by (auto simp: resolve_def refers_to_def find_Some_iff split: if_splits)
     (metis nth_mem set_rev length_rev)

lemma resolve_None: "(resolve coll x = None) = (\<not> matched coll x)"
  by (auto simp: resolve_def matched_def refers_to_def list_ex_iff find_None_iff)

lemma filter_truthy_resolved:
  "\<forall>x \<in> set xs. g x = (case r x of None \<Rightarrow> VUndef | Some d \<Rightarrow> VObj d) \<Longrightarrow>
   filter truthy (map g xs) = map VObj (List.map_filter r xs)"
  by (induction xs) (auto simp: List.map_filter_simps split: option.splits)

lemma ids_of_subset:
  "d \<in> set ds \<Longrightarrow> set (ids_of fld d) \<subseteq> set (gather_ids fld ds)"
  by (auto simp: gather_ids_def)

lemma assign_populated_eq:
  assumes d: "d \<in> set ds"
    and u: "u = new_Set (gather_ids fld ds)"
    and m: "m = new_Map (map (\<lambda>d. (doc_id d, VObj d)) (filter (matches (IdIn u)) coll))"
  shows "assign_populated m fld d = doc_set d fld (populated_value coll u (doc_get d fld))"
proof -
  have get: "\<And>x. js_map_get m x =
     (if x \<in> set u then (case resolve coll x of None \<Rightarrow> VUndef | Some d \<Rightarrow> VObj d)
      else VUndef)"
    unfolding m by (rule lookup_fetched)
  have sub: "set (ids_of fld d) \<subseteq> set u"
    using ids_of_subset [OF d] by (simp add: u set_new_Set)
  show ?thesis
  proof (cases "doc_get d fld")
    case (VArr xs)
    with sub have "set xs \<subseteq> set u" by (simp add: ids_of_def)
    then have "\<forall>x \<in> set xs. js_map_get m x =
        (case resolve coll x of None \<Rightarrow> VUndef | Some d \<Rightarrow> VObj d)"
      by (auto simp: get)
    then have "filter truthy (map (js_map_get m) xs) = map VObj (List.map_filter (resolve coll) xs)"
      by (rule filter_truthy_resolved)
    with VArr show ?thesis by (simp add: assign_populated_def populated_value_def)
  qed (auto simp: assign_populated_def populated_value_def get split: option.splits)
qed

text \<open>
  One round in closed form: the error of a misconfigured field, else the result set
  unchanged when no document holds an identifier, else every document rewritten.
\<close>

lemma populate_field_eq:
  "populate_field w sdef fld ds =
     (case config_error w sdef fld of
        Some e \<Rightarrow> (Inl e, [])
      | None \<Rightarrow>
          (let u = new_Set (gather_ids fld ds); coll = ref_collection w sdef fld in
           if u = [] then (Inr ds, [])
           else (Inr (map (\<lambda>d. doc_set d fld (populated_value coll u (doc_get d fld))) ds),
                 [(fld, ref_name sdef fld, u)])))"
proof (cases "config_error w sdef fld")
  case (Some e)
  then show ?thesis
    by (auto simp: populate_field_def config_error_def split: option.splits if_splits)
next
  case None
  then obtain fd r a where cfg: "map_of sdef fld = Some fd" "ref fd = Some r" "r \<noteq> []"
    "map_of (modelRegistry w) r = Some a"
    by (auto simp: config_error_def split: option.splits if_splits)
  let ?u = "new_Set (gather_ids fld ds)"
  let ?coll = "docs (db (deref w a))"
  let ?m = "new_Map (map (\<lambda>d. (doc_id d, VObj d)) (filter (matches (IdIn ?u)) ?coll))"
  have "map (assign_populated ?m fld) ds =
        map (\<lambda>d. doc_set d fld (populated_value ?coll ?u (doc_get d fld))) ds"
    by (rule map_cong [OF refl]) (rule assign_populated_eq [OF _ refl refl])
  with None cfg show ?thesis
    by (simp add: populate_field_def ref_collection_def ref_name_def fetch_IdIn Let_def)
qed

subsection \<open>What one round reads and writes\<close>

lemma doc_get_proj:
  assumes "map (\<lambda>d. map_of d fld) ds1 = map (\<lambda>d. map_of d fld) ds"
  shows "map (\<lambda>d. doc_get d fld) ds1 = map (\<lambda>d. doc_get d fld) ds"
proof -
  from assms have "map (\<lambda>ov. case ov of None \<Rightarrow> inherited fld | Some v \<Rightarrow> v) (map (\<lambda>d. map_of d fld) ds1) =
      map (\<lambda>ov. case ov of None \<Rightarrow> inherited fld | Some v \<Rightarrow> v) (map (\<lambda>d. map_of d fld) ds)"
    by simp
  then show ?thesis by (simp add: doc_get_def comp_def)
qed

lemma gather_ids_proj:
  assumes "map (\<lambda>d. doc_get d fld) ds1 = map (\<lambda>d. doc_get d fld) ds"
  shows "gather_ids fld ds1 = gather_ids fld ds"
proof -
  from assms have len: "length ds1 = length ds"
    by (rule map_eq_imp_length_eq)
  have "\<And>i. i < length ds \<Longrightarrow> doc_get (ds1 ! i) fld = doc_get (ds ! i) fld"
    using assms len by (metis nth_map)
  then have "map (ids_of fld) ds1 = map (ids_of fld) ds"
    using len by (simp add: list_eq_iff_nth_eq ids_of_def)
  then show ?thesis by (simp add: gather_ids_def)
qed

lemma populate_field_length:
  "populate_field w sdef g ds = (Inr ds', tr) \<Longrightarrow> length ds' = length ds"
  by (auto simp: populate_field_eq Let_def split: option.splits if_splits)

lemma populate_field_frame:
  "populate_field w sdef g ds = (Inr ds', tr) \<Longrightarrow> h \<noteq> g \<Longrightarrow>
   map (\<lambda>d. map_of d h) ds' = map (\<lambda>d. map_of d h) ds"
  by (auto simp: populate_field_eq Let_def doc_set_def update_conv' split: option.splits if_splits)

lemma populate_field_proj:
  "populate_field w sdef fld ds = (Inr ds', tr) \<Longrightarrow>
   config_error w sdef fld = None \<and>
   map (\<lambda>d. map_of d fld) ds' =
     (if new_Set (gather_ids fld ds) = [] then map (\<lambda>d. map_of d fld) ds
      else map (\<lambda>v. Some (populated_value (ref_collection w sdef fld)
                           (new_Set (gather_ids fld ds)) v))
             (map (\<lambda>d. doc_get d fld) ds))"
  by (auto simp: populate_field_eq Let_def doc_set_def update_conv' split: option.splits if_splits)

lemma populate_docs_length:
  "populate_docs w sdef flds ds = (Inr ds', tr) \<Longrightarrow> length ds' = length ds"
proof (induction flds arbitrary: ds tr)
  case Nil
  then show ?case by simp
next
  case (Cons g flds)
  from Cons.prems obtain ds1 tr1 tr2 where
    s1: "populate_field w sdef g ds = (Inr ds1, tr1)" and
    s2: "populate_docs w sdef flds ds1 = (Inr ds', tr2)"
    by (auto split: prod.splits sum.splits)
  from Cons.IH [OF s2] populate_field_length [OF s1] show ?case by simp
qed

lemma populate_docs_frame:
  "populate_docs w sdef flds ds = (Inr ds', tr) \<Longrightarrow> fld \<notin> set flds \<Longrightarrow>
   map (\<lambda>d. map_of d fld) ds' = map (\<lambda>d. map_of d fld) ds"
proof (induction flds arbitrary: ds tr)
  case Nil
  then show ?case by simp
next
  case (Cons g flds)
  from Cons.prems(1) obtain ds1 tr1 tr2 where
    s1: "populate_field w sdef g ds = (Inr ds1, tr1)" and
    s2: "populate_docs w sdef flds ds1 = (Inr ds', tr2)"
    by (auto split: prod.splits sum.splits)
  from Cons.prems(2) have "fld \<noteq> g" "fld \<notin> set flds" by auto
  with Cons.IH [OF s2] populate_field_frame [OF s1] show ?case by simp
qed

text \<open>
  The field of a populated result set, by the field of the result set fetched.
\<close>

lemma populate_docs_proj:
  "populate_docs w sdef flds ds = (Inr ds', tr) \<Longrightarrow> distinct flds \<Longrightarrow> fld \<in> set flds \<Longrightarrow>
   config_error w sdef fld = None \<and>
   map (\<lambda>d. map_of d fld) ds' =
     (if new_Set (gather_ids fld ds) = [] then map (\<lambda>d. map_of d fld) ds
      else map (\<lambda>v. Some (populated_value (ref_collection w sdef fld)
                           (new_Set (gather_ids fld ds)) v))
             (map (\<lambda>d. doc_get d fld) ds))"
proof (induction flds arbitrary: ds tr)
  case Nil
  then show ?case by simp
next
  case (Cons g flds)
  from Cons.prems(1) obtain ds1 tr1 tr2 where
    s1: "populate_field w sdef g ds = (Inr ds1, tr1)" and
    s2: "populate_docs w sdef flds ds1 = (Inr ds', tr2)"
    by (auto split: prod.splits sum.splits)
  show ?case
  proof (cases "fld = g")
    case True
    with Cons.prems(2) have "fld \<notin> set flds" by simp
    from populate_docs_frame [OF s2 this] populate_field_proj [OF s1 [folded True]]
    show ?thesis by simp
  next
    case False
    with Cons.prems have d: "distinct flds" and m: "fld \<in> set flds" by auto
    have p: "map (\<lambda>d. map_of d fld) ds1 = map (\<lambda>d. map_of d fld) ds"
      by (rule populate_field_frame [OF s1 False])
    have g: "map (\<lambda>d. doc_get d fld) ds1 = map (\<lambda>d. doc_get d fld) ds"
      by (rule doc_get_proj [OF p])
    have i: "gather_ids fld ds1 = gather_ids fld ds"
      by (rule gather_ids_proj [OF g])
    from Cons.IH [OF s2 d m] show ?thesis by (simp only: p g i)
  qed
qed

lemma populate_docs_nth:
  assumes run: "populate_docs w sdef flds ds = (Inr ds', tr)"
    and dist: "distinct flds" and mem: "fld \<in> set flds" and i: "i < length ds"
  shows "map_of (ds' ! i) fld =
     (if new_Set (gather_ids fld ds) = [] then map_of (ds ! i) fld
      else Some (populated_value (ref_collection w sdef fld)
                   (new_Set (gather_ids fld ds)) (doc_get (ds ! i) fld)))"
proof -
  have len: "length ds' = length ds" by (rule populate_docs_length [OF run])
  from populate_docs_proj [OF run dist mem]
  have "map (\<lambda>d. map_of d fld) ds' ! i =
     (if new_Set (gather_ids fld ds) = [] then map (\<lambda>d. map_of d fld) ds
      else map (\<lambda>v. Some (populated_value (ref_collection w sdef fld)
                           (new_Set (gather_ids fld ds)) v))
             (map (\<lambda>d. doc_get d fld) ds)) ! i"
    by simp
  with i len show ?thesis by (simp split: if_splits)
qed

lemma resolved_in_order:
  "list_all2 (\<lambda>x d. d \<in> set coll \<and> refers_to x d)
     (filter (matched coll) xs) (List.map_filter (resolve coll) xs)"
proof (induction xs)
  case Nil
  then show ?case by (simp add: List.map_filter_simps)
next
  case (Cons x xs)
  show ?case
  proof (cases "resolve coll x")
    case None
    with Cons resolve_None [of coll x] show ?thesis by (simp add: List.map_filter_simps)
  next
    case (Some d)
    then have "matched coll x" using resolve_None [of coll x] by simp
    with Some Cons resolve_Some [OF Some] show ?thesis
      by (simp add: List.map_filter_simps)
  qed
qed

lemma populated_value_scalar:
  "\<forall>xs. v \<noteq> VArr xs \<Longrightarrow>
   populated_value coll u v =
     (if v \<in> set u then (case resolve coll v of None \<Rightarrow> VNull | Some d \<Rightarrow> VObj d)
      else VNull)"
  by (cases v) (simp_all add: populated_value_def)

lemma ids_of_scalar:
  "\<not> nullish v \<Longrightarrow> \<forall>xs. v \<noteq> VArr xs \<Longrightarrow> doc_get d fld = v \<Longrightarrow> ids_of fld d = [v]"
  by (cases v) (simp_all add: ids_of_def)

lemma gather_ids_nth:
  "i < length ds \<Longrightarrow> set (ids_of fld (ds ! i)) \<subseteq> set (new_Set (gather_ids fld ds))"
  using ids_of_subset [of "ds ! i" ds fld] by (simp add: set_new_Set)

subsection \<open>The example, populated\<close>

lemma ex_run:
  "populate_docs ex_world ex_author_schema [''books'', ''fav''] ex_authors =
     (Inr ex_populated, ex_lookups)"
  by (simp add: ex_defs run_defs)



lemma ex_ref_collection:
  "ref_collection ex_world ex_author_schema ''books'' = [ex_book1, ex_book3]"
  "ref_collection ex_world ex_author_schema ''fav'' = [ex_book1, ex_book3]"
  by (simp_all add: ref_collection_def ex_world_def ex_author_schema_def ex_field_def
      ex_store_def deref_def)

subsection \<open>Array-valued and scalar references\<close>

text \<open>
  Claim C1. For every result set and every populated field (the populated fields of a
  query are distinct), a document whose field held an array of identifiers holds, after
  populate, the array of the documents its identifiers refer to in the referenced
  collection: the identifiers without a target are dropped, and the documents stand in
  the order of the identifiers that have one. The result set keeps its length.
\<close>

theorem populate_array_order:
  assumes run: "populate_docs w sdef flds ds = (Inr ds', tr)"
    and dist: "distinct flds" and mem: "fld \<in> set flds"
    and i: "i < length ds" and arr: "doc_get (ds ! i) fld = VArr xs"
  shows "length ds' = length ds \<and>
    (\<exists>rs. doc_get (ds' ! i) fld = VArr (map VObj rs) \<and>
       list_all2 (\<lambda>x d. d \<in> set (ref_collection w sdef fld) \<and> refers_to x d)
         (filter (matched (ref_collection w sdef fld)) xs) rs)"
proof -
  let ?coll = "ref_collection w sdef fld"
  have len: "length ds' = length ds" by (rule populate_docs_length [OF run])
  have nth: "map_of (ds' ! i) fld =
     (if new_Set (gather_ids fld ds) = [] then map_of (ds ! i) fld
      else Some (populated_value ?coll (new_Set (gather_ids fld ds)) (VArr xs)))"
    using populate_docs_nth [OF run dist mem i] by (simp add: arr)
  have "doc_get (ds' ! i) fld = VArr (map VObj (List.map_filter (resolve ?coll) xs))"
  proof (cases "new_Set (gather_ids fld ds) = []")
    case True
    with gather_ids_nth [OF i, of fld] arr have "xs = []" by (simp add: ids_of_def)
    moreover from True nth arr have "doc_get (ds' ! i) fld = VArr xs"
      by (simp add: doc_get_def)
    ultimately show ?thesis by (simp add: List.map_filter_def)
  next
    case False
    with nth show ?thesis by (simp add: doc_get_def populated_value_def)
  qed
  with len resolved_in_order [of ?coll xs] show ?thesis by blast
qed

text \<open>
  The first author refers to the books \<open>b1\<close>, \<open>b2\<close>, \<open>b3\<close>, of which \<open>b2\<close> does not
  exist: the field becomes the books \<open>b1\<close> and \<open>b3\<close>, in this order.
\<close>

theorem populate_array_order_witness:
  "populate_docs ex_world ex_author_schema [''books'', ''fav''] ex_authors =
     (Inr ex_populated, ex_lookups) \<and>
   doc_get (ex_authors ! 0) ''books'' = VArr [VStr ''b1'', VStr ''b2'', VStr ''b3''] \<and>
   filter (matched (ref_collection ex_world ex_author_schema ''books''))
     [VStr ''b1'', VStr ''b2'', VStr ''b3''] = [VStr ''b1'', VStr ''b3''] \<and>
   doc_get (ex_populated ! 0) ''books'' = VArr (map VObj [ex_book1, ex_book3]) \<and>
   (\<exists>rs. doc_get (ex_populated ! 0) ''books'' = VArr (map VObj rs) \<and>
      list_all2 (\<lambda>x d. d \<in> set (ref_collection ex_world ex_author_schema ''books'') \<and>
                        refers_to x d)
        [VStr ''b1'', VStr ''b3''] rs)"
proof -
  have d: "distinct [''books'', ''fav'']" by simp
  have m: "''books'' \<in> set [''books'', ''fav'']" by simp
  have i: "0 < length ex_authors" by (simp add: ex_authors_def)
  have arr: "doc_get (ex_authors ! 0) ''books'' = VArr [VStr ''b1'', VStr ''b2'', VStr ''b3'']"
    by (simp add: ex_defs doc_get_def inherited_def object_prototype_names_def)
  have f: "filter (matched (ref_collection ex_world ex_author_schema ''books''))
     [VStr ''b1'', VStr ''b2'', VStr ''b3''] = [VStr ''b1'', VStr ''b3'']"
    by (simp add: ex_ref_collection matched_def refers_to_def same_value_zero_def doc_id_def
        doc_get_def inherited_def object_prototype_names_def ex_book1_def ex_book3_def)
  have v: "doc_get (ex_populated ! 0) ''books'' = VArr (map VObj [ex_book1, ex_book3])"
    by (simp add: ex_populated_def doc_get_def inherited_def object_prototype_names_def)
  from populate_array_order [OF ex_run d m i arr] f ex_run arr v show ?thesis by simp
qed

lemma populate_docs_ok:
  "list_all (\<lambda>g. config_error w sdef g = None) flds \<Longrightarrow>
   \<exists>ds' tr. populate_docs w sdef flds ds = (Inr ds', tr)"
proof (induction flds arbitrary: ds)
  case Nil
  then show ?case by simp
next
  case (Cons g flds)
  then have "config_error w sdef g = None" by simp
  then have "\<exists>ds1 tr1. populate_field w sdef g ds = (Inr ds1, tr1)"
    by (simp add: populate_field_eq Let_def)
  then obtain ds1 tr1 where s1: "populate_field w sdef g ds = (Inr ds1, tr1)"
    by blast
  from Cons obtain ds' tr2 where "populate_docs w sdef flds ds1 = (Inr ds', tr2)"
    by fastforce
  with s1 show ?case by simp
qed

text \<open>
  Claim C5. When every populated field is configured (it has a \<open>ref\<close>, and the model
  is registered), populate succeeds; and a document whose field held a scalar identifier
  that has no target in the referenced collection holds null in that field afterwards.
\<close>

theorem populate_scalar_miss:
  assumes cfg: "list_all (\<lambda>g. config_error w sdef g = None) flds"
    and dist: "distinct flds" and mem: "fld \<in> set flds"
  shows "\<exists>ds' tr. populate_docs w sdef flds ds = (Inr ds', tr) \<and> length ds' = length ds \<and>
    (\<forall>i < length ds.
       \<not> nullish (doc_get (ds ! i) fld) \<and> (\<forall>xs. doc_get (ds ! i) fld \<noteq> VArr xs) \<and>
       \<not> matched (ref_collection w sdef fld) (doc_get (ds ! i) fld) \<longrightarrow>
       map_of (ds' ! i) fld = Some VNull)"
proof -
  from populate_docs_ok [OF cfg] obtain ds' tr where
    run: "populate_docs w sdef flds ds = (Inr ds', tr)" by blast
  have len: "length ds' = length ds" by (rule populate_docs_length [OF run])
  have "map_of (ds' ! i) fld = Some VNull"
    if i: "i < length ds" and v: "\<not> nullish (doc_get (ds ! i) fld)"
      and s: "\<forall>xs. doc_get (ds ! i) fld \<noteq> VArr xs"
      and miss: "\<not> matched (ref_collection w sdef fld) (doc_get (ds ! i) fld)" for i
  proof -
    let ?v = "doc_get (ds ! i) fld"
    from v s have "ids_of fld (ds ! i) = [?v]"
      by (rule ids_of_scalar) simp
    with gather_ids_nth [OF i, of fld] have inu: "?v \<in> set (new_Set (gather_ids fld ds))"
      by simp
    then have ne: "new_Set (gather_ids fld ds) \<noteq> []" by auto
    from miss have "resolve (ref_collection w sdef fld) ?v = None"
      by (simp add: resolve_None)
    with inu have "populated_value (ref_collection w sdef fld)
        (new_Set (gather_ids fld ds)) ?v = VNull"
      by (simp add: populated_value_scalar [OF s])
    with populate_docs_nth [OF run dist mem i] ne show ?thesis by simp
  qed
  with run len show ?thesis by blast
qed

text \<open>
  The second author's favourite \<open>b9\<close> is not a book: the field becomes null.
\<close>

theorem populate_scalar_miss_witness:
  "list_all (\<lambda>g. config_error ex_world ex_author_schema g = None) [''books'', ''fav''] \<and>
   doc_get (ex_authors ! 1) ''fav'' = VStr ''b9'' \<and>
   \<not> matched (ref_collection ex_world ex_author_schema ''fav'') (VStr ''b9'') \<and>
   (\<exists>ds' tr. populate_docs ex_world ex_author_schema [''books'', ''fav''] ex_authors =
        (Inr ds', tr) \<and> length ds' = length ex_authors \<and>
      map_of (ds' ! 1) ''fav'' = Some VNull)"
proof -
  have c: "list_all (\<lambda>g. config_error ex_world ex_author_schema g = None) [''books'', ''fav'']"
    by (simp add: config_error_def ex_world_def ex_author_schema_def ex_field_def)
  have d: "distinct [''books'', ''fav'']" by simp
  have m: "''fav'' \<in> set [''books'', ''fav'']" by simp
  have v: "doc_get (ex_authors ! 1) ''fav'' = VStr ''b9''"
    by (simp add: ex_defs doc_get_def inherited_def object_prototype_names_def)
  have miss: "\<not> matched (ref_collection ex_world ex_author_schema ''fav'') (VStr ''b9'')"
    by (simp add: ex_ref_collection matched_def refers_to_def same_value_zero_def doc_id_def
        doc_get_def inherited_def object_prototype_names_def ex_book1_def ex_book3_def)
  have i: "(1::nat) < length ex_authors" by (simp add: ex_authors_def)
  from populate_scalar_miss [OF c d m, of ex_authors] obtain ds' tr where
    run: "populate_docs ex_world ex_author_schema [''books'', ''fav''] ex_authors = (Inr ds', tr)"
    and len: "length ds' = length ex_authors"
    and all: "\<forall>i < length ex_authors.
       \<not> nullish (doc_get (ex_authors ! i) ''fav'') \<and>
       (\<forall>xs. doc_get (ex_authors ! i) ''fav'' \<noteq> VArr xs) \<and>
       \<not> matched (ref_collection ex_world ex_author_schema ''fav'') (doc_get (ex_authors ! i) ''fav'') \<longrightarrow>
       map_of (ds' ! i) ''fav'' = Some VNull"
    by blast
  from all i v miss have "map_of (ds' ! 1) ''fav'' = Some VNull" by simp
  with run len c v miss show ?thesis by blast
qed




subsection \<open>Configuration errors\<close>

lemma populate_field_Inr:
  "(\<exists>ds' tr. populate_field w sdef g ds = (Inr ds', tr)) = (config_error w sdef g = None)"
  by (auto simp: populate_field_eq Let_def split: option.splits)

lemma populate_docs_error:
  "(\<exists>tr. populate_docs w sdef flds ds = (Inl e, tr)) =
   (\<exists>pre f post. flds = pre @ f # post \<and> config_error w sdef f = Some e \<and>
      list_all (\<lambda>g. config_error w sdef g = None) pre)"
  (is "?L flds ds = ?R flds")
proof (induction flds arbitrary: ds)
  case Nil
  then show ?case by simp
next
  case (Cons g flds)
  show ?case
  proof (cases "config_error w sdef g")
    case (Some e')
    then have pf: "populate_field w sdef g ds = (Inl e', [])"
      by (simp add: populate_field_eq)
    then have L: "?L (g # flds) ds = (e' = e)" by auto
    have R: "?R (g # flds) = (e' = e)"
    proof
      assume "?R (g # flds)"
      then obtain pre f post where e: "g # flds = pre @ f # post"
        and c: "config_error w sdef f = Some e"
        and pre: "list_all (\<lambda>g. config_error w sdef g = None) pre"
        by blast
      show "e' = e"
      proof (cases pre)
        case Nil
        with e c Some show ?thesis by simp
      next
        case (Cons h pre')
        with e pre Some show ?thesis by simp
      qed
    next
      assume "e' = e"
      with Some have "g # flds = [] @ g # flds \<and> config_error w sdef g = Some e \<and>
        list_all (\<lambda>g. config_error w sdef g = None) []" by simp
      then show "?R (g # flds)" by blast
    qed
    from L R show ?thesis by simp
  next
    case None
    then obtain ds1 tr1 where pf: "populate_field w sdef g ds = (Inr ds1, tr1)"
      using populate_field_Inr [of w sdef g ds] by blast
    then have L: "?L (g # flds) ds = ?L flds ds1"
      by (auto split: prod.splits)
    have R: "?R (g # flds) = ?R flds"
    proof
      assume "?R (g # flds)"
      then obtain pre f post where e: "g # flds = pre @ f # post"
        and c: "config_error w sdef f = Some e"
        and pre: "list_all (\<lambda>g. config_error w sdef g = None) pre"
        by blast
      show "?R flds"
      proof (cases pre)
        case Nil
        with e c None show ?thesis by simp
      next
        case (Cons h pre')
        with e have "flds = pre' @ f # post" by simp
        moreover from pre Cons have "list_all (\<lambda>g. config_error w sdef g = None) pre'" by simp
        ultimately show ?thesis using c by blast
      qed
    next
      assume "?R flds"
      then obtain pre f post where e: "flds = pre @ f # post"
        and c: "config_error w sdef f = Some e"
        and pre: "list_all (\<lambda>g. config_error w sdef g = None) pre"
        by blast
      from e have "g # flds = (g # pre) @ f # post" by simp
      moreover from pre None have "list_all (\<lambda>g. config_error w sdef g = None) (g # pre)" by simp
      ultimately show "?R (g # flds)" using c by blast
    qed
    from L R Cons.IH [of ds1] show ?thesis by simp
  qed
qed

text \<open>
  Claim C6, as amended. An execution fails with a configuration error exactly when it
  reaches the resolver (it is in many mode, or in single mode with sort or skip set, or
  its direct fetch found a document) and some populated field is misconfigured; the error
  is that of the first misconfigured field in the order the fields were requested:
  \<open>MissingRef\<close> when the field has no definition or no \<open>ref\<close>, \<open>UnknownModel\<close> when the
  registry has no model of that name. The result set plays no part, so the checks fire
  on an empty one. A single-mode execution without sort and skip whose fetch finds
  nothing returns null and checks nothing.
\<close>

theorem exec_config_error:
  "(\<exists>tr. exec w q = (Inl e, tr)) =
   (populate_reached w q \<and>
    (\<exists>pre f post. populateFields q = pre @ f # post \<and>
       config_error w (schema (deref w (qmodel q))) f = Some e \<and>
       list_all (\<lambda>g. config_error w (schema (deref w (qmodel q))) g = None) pre))"
proof -
  let ?sdef = "schema (deref w (qmodel q))"
  have many: "(\<exists>tr. execMany w q = (Inl e, tr)) =
    (\<exists>pre f post. populateFields q = pre @ f # post \<and> config_error w ?sdef f = Some e \<and>
       list_all (\<lambda>g. config_error w ?sdef g = None) pre)"
    by (simp add: execMany_def populate_docs_error)
  show ?thesis
  proof (cases "single q")
    case False
    then have "(\<exists>tr. exec w q = (Inl e, tr)) = (\<exists>tr. execMany w q = (Inl e, tr))"
      by (auto simp: exec_def split: prod.splits sum.splits)
    with False many show ?thesis by (simp add: populate_reached_def)
  next
    case True
    show ?thesis
    proof (cases "sortObj q \<noteq> None \<or> skipCount q \<noteq> None")
      case sk: True
      then have "(\<exists>tr. exec w q = (Inl e, tr)) = (\<exists>tr. execMany w q = (Inl e, tr))"
        using True by (auto simp: exec_def execOne_def split: prod.splits sum.splits)
      with sk many show ?thesis by (auto simp: populate_reached_def)
    next
      case sk: False
      show ?thesis
      proof (cases "findOneRaw w (qmodel q) (selector q)")
        case None
        with True sk show ?thesis
          by (simp add: exec_def execOne_def populate_reached_def)
      next
        case (Some d)
        with True sk have "(\<exists>tr. exec w q = (Inl e, tr)) =
            (\<exists>tr. populate_docs w ?sdef (populateFields q) [d] = (Inl e, tr))"
          by (auto simp: exec_def execOne_def split: prod.splits sum.splits)
        with Some show ?thesis
          by (simp add: populate_docs_error populate_reached_def)
      qed
    qed
  qed
qed

text \<open>
  A many-mode query that matches no author fails on the field \<open>name\<close>, which has no
  \<open>ref\<close>, and on the field \<open>editor\<close>, whose model is not registered.
\<close>

theorem exec_config_error_witness:
  "fetch ex_world (populate (find 0 ex_none) ''name'') = [] \<and>
   (\<exists>tr. exec ex_world (populate (find 0 ex_none) ''name'') = (Inl (MissingRef ''name''), tr)) \<and>
   (\<exists>tr. exec ex_world (populate (find 0 ex_none) ''editor'') =
      (Inl (UnknownModel ''Editor''), tr))"
proof -
  let ?q = "\<lambda>f. populate (find 0 ex_none) f"
  have r: "\<And>f. populate_reached ex_world (?q f)"
    by (simp add: populate_reached_def populate_def find_def new_Query_def)
  have s: "\<And>f. schema (deref ex_world (qmodel (?q f))) = ex_author_schema"
    by (simp add: populate_def find_def new_Query_def deref_def ex_world_def)
  have p: "\<And>f. populateFields (?q f) = [] @ f # []"
    by (simp add: populate_def find_def new_Query_def)
  have c1: "config_error ex_world ex_author_schema ''name'' = Some (MissingRef ''name'')"
    by (simp add: config_error_def ex_author_schema_def ex_field_def)
  have c2: "config_error ex_world ex_author_schema ''editor'' = Some (UnknownModel ''Editor'')"
    by (simp add: config_error_def ex_author_schema_def ex_field_def ex_world_def)
  have e: "fetch ex_world (?q ''name'') = []"
    by (simp add: ex_defs run_defs)
  have "\<exists>pre f post. populateFields (?q ''name'') = pre @ f # post \<and>
       config_error ex_world (schema (deref ex_world (qmodel (?q ''name'')))) f =
         Some (MissingRef ''name'') \<and>
       list_all (\<lambda>g. config_error ex_world (schema (deref ex_world (qmodel (?q ''name'')))) g = None) pre"
    using p [of "''name''"] c1 s [of "''name''"]
    by (intro exI [of _ "[]"] exI [of _ "''name''"]) simp
  with r [of "''name''"] have a: "\<exists>tr. exec ex_world (?q ''name'') = (Inl (MissingRef ''name''), tr)"
    by (simp only: exec_config_error)
  have "\<exists>pre f post. populateFields (?q ''editor'') = pre @ f # post \<and>
       config_error ex_world (schema (deref ex_world (qmodel (?q ''editor'')))) f =
         Some (UnknownModel ''Editor'') \<and>
       list_all (\<lambda>g. config_error ex_world (schema (deref ex_world (qmodel (?q ''editor'')))) g = None) pre"
    using p [of "''editor''"] c2 s [of "''editor''"]
    by (intro exI [of _ "[]"] exI [of _ "''editor''"]) simp
  with r [of "''editor''"] have b: "\<exists>tr. exec ex_world (?q ''editor'') =
      (Inl (UnknownModel ''Editor''), tr)"
    by (simp only: exec_config_error)
  from a b e show ?thesis by blast
qed

text \<open>
  Claim C6 as stated fails: \<open>findOne\<close> with populate of \<open>name\<close>, which has no \<open>ref\<close>,
  returns null when no author matches.
\<close>

theorem exec_config_error_counterexample:
  "populateFields (populate (findOne 0 ex_none) ''name'') = [''name''] \<and>
   schema (deref ex_world 0) = ex_author_schema \<and>
   map_of ex_author_schema ''name'' = Some (ex_field\<lparr>required := True\<rparr>) \<and>
   ref (ex_field\<lparr>required := True\<rparr>) = None \<and>
   exec ex_world (populate (findOne 0 ex_none) ''name'') = (Inr VNull, [])"
  by (simp add: ex_defs run_defs)

subsection \<open>Lookups issued\<close>

lemma count_fold_set_add:
  "primitive x \<or> shared x \<Longrightarrow> count_list s0 x \<le> 1 \<Longrightarrow>
   count_list (fold (\<lambda>y s. set_add s y) ids s0) x \<le> 1"
proof (induction ids arbitrary: s0)
  case Nil
  then show ?case by simp
next
  case (Cons y ids)
  have "count_list (set_add s0 y) x \<le> 1"
  proof (cases "list_ex (\<lambda>z. same_value_zero z y) s0")
    case True
    with Cons.prems show ?thesis by (simp add: set_add_def)
  next
    case False
    show ?thesis
    proof (cases "x = y")
      case True
      with False Cons.prems(1) have "x \<notin> set s0"
        by (auto simp: list_ex_iff same_value_zero_def)
      then have "count_list s0 x = 0" by (simp add: count_list_0_iff)
      with False True show ?thesis by (simp add: set_add_def)
    next
      case ne: False
      with False Cons.prems show ?thesis by (simp add: set_add_def)
    qed
  qed
  with Cons.IH [OF Cons.prems(1) this] show ?case by simp
qed

lemma new_Set_dedup: "primitive x \<or> shared x \<Longrightarrow> count_list (new_Set ids) x \<le> 1"
  unfolding new_Set_def by (rule count_fold_set_add) simp_all

lemma lookups_for_simps:
  "lookups_for fld [] = []"
  "lookups_for fld (t1 @ t2) = lookups_for fld t1 @ lookups_for fld t2"
  "lookups_for fld [(g, r, u)] = (if g = fld then [(g, r, u)] else [])"
  by (simp_all add: lookups_for_def)

lemma populate_field_trace:
  "populate_field w sdef g ds = (res, tr) \<Longrightarrow>
   tr = (if config_error w sdef g = None \<and> new_Set (gather_ids g ds) \<noteq> []
         then [(g, ref_name sdef g, new_Set (gather_ids g ds))] else [])"
  by (auto simp: populate_field_eq Let_def split: option.splits if_splits)

lemma populate_docs_trace_other:
  "populate_docs w sdef flds ds = (res, tr) \<Longrightarrow> fld \<notin> set flds \<Longrightarrow>
   lookups_for fld tr = []"
proof (induction flds arbitrary: ds res tr)
  case Nil
  then show ?case by (auto simp: lookups_for_simps)
next
  case (Cons g flds)
  obtain r1 t1 where s1: "populate_field w sdef g ds = (r1, t1)"
    by (cases "populate_field w sdef g ds")
  from Cons.prems(2) have ne: "g \<noteq> fld" and nm: "fld \<notin> set flds" by auto
  from populate_field_trace [OF s1] ne have t1: "lookups_for fld t1 = []"
    by (simp add: lookups_for_simps split: if_splits)
  show ?case
  proof (cases r1)
    case (Inl e)
    with s1 Cons.prems(1) t1 show ?thesis by simp
  next
    case (Inr ds1)
    obtain r2 t2 where s2: "populate_docs w sdef flds ds1 = (r2, t2)"
      by (cases "populate_docs w sdef flds ds1")
    with s1 Inr Cons.prems(1) have "tr = t1 @ t2" by simp
    with t1 Cons.IH [OF s2 nm] show ?thesis by (simp add: lookups_for_simps)
  qed
qed

lemma populate_docs_trace:
  "populate_docs w sdef flds ds = (res, tr) \<Longrightarrow> distinct flds \<Longrightarrow>
   lookups_for fld tr =
     (if new_Set (gather_ids fld ds) \<noteq> [] \<and>
         (\<exists>pre post. flds = pre @ fld # post \<and>
            list_all (\<lambda>g. config_error w sdef g = None) (pre @ [fld]))
      then [(fld, ref_name sdef fld, new_Set (gather_ids fld ds))] else [])"
  (is "_ \<Longrightarrow> _ \<Longrightarrow> _ = (if ?ne ds \<and> ?C flds then ?one ds else [])")
proof (induction flds arbitrary: ds res tr)
  case Nil
  then show ?case by (auto simp: lookups_for_simps)
next
  case (Cons g flds)
  obtain r1 t1 where s1: "populate_field w sdef g ds = (r1, t1)"
    by (cases "populate_field w sdef g ds")
  note t1 = populate_field_trace [OF s1]
  from Cons.prems(2) have dist: "distinct flds" and fresh: "g \<notin> set flds" by auto
  show ?case
  proof (cases "config_error w sdef g")
    case (Some e)
    then have "r1 = Inl e" "t1 = []" using s1 by (simp_all add: populate_field_eq)
    with s1 Cons.prems(1) have tr: "tr = []" by simp
    have "\<not> ?C (g # flds)"
    proof
      assume "?C (g # flds)"
      then obtain pre post where e: "g # flds = pre @ fld # post"
        and c: "list_all (\<lambda>g. config_error w sdef g = None) (pre @ [fld])" by blast
      from e c Some show False by (cases pre) simp_all
    qed
    with tr show ?thesis by (simp add: lookups_for_simps)
  next
    case None
    then obtain ds1 where r1: "r1 = Inr ds1"
      using s1 populate_field_Inr [of w sdef g ds] by auto
    obtain r2 t2 where s2: "populate_docs w sdef flds ds1 = (r2, t2)"
      by (cases "populate_docs w sdef flds ds1")
    with s1 r1 Cons.prems(1) have tr: "tr = t1 @ t2" by simp
    show ?thesis
    proof (cases "fld = g")
      case True
      have t2: "lookups_for fld t2 = []"
        using populate_docs_trace_other [OF s2] fresh True by simp
      have C: "?C (g # flds)"
      proof -
        from None True have "g # flds = [] @ fld # flds \<and>
          list_all (\<lambda>g. config_error w sdef g = None) ([] @ [fld])" by simp
        then show ?thesis by blast
      qed
      from t1 None True have "lookups_for fld t1 =
          (if ?ne ds then ?one ds else [])" by (simp add: lookups_for_simps)
      with tr t2 C show ?thesis by (simp add: lookups_for_simps)
    next
      case False
      with t1 have f1: "lookups_for fld t1 = []"
        by (simp add: lookups_for_simps split: if_splits)
      have p: "map (\<lambda>d. map_of d fld) ds1 = map (\<lambda>d. map_of d fld) ds"
        using populate_field_frame [OF s1 [unfolded r1] False] .
      have i: "gather_ids fld ds1 = gather_ids fld ds"
        by (rule gather_ids_proj [OF doc_get_proj [OF p]])
      have C: "?C (g # flds) = ?C flds"
      proof
        assume "?C (g # flds)"
        then obtain pre post where e: "g # flds = pre @ fld # post"
          and c: "list_all (\<lambda>g. config_error w sdef g = None) (pre @ [fld])" by blast
        show "?C flds"
        proof (cases pre)
          case Nil
          with e False show ?thesis by simp
        next
          case (Cons h pre')
          with e c have "flds = pre' @ fld # post \<and>
            list_all (\<lambda>g. config_error w sdef g = None) (pre' @ [fld])" by simp
          then show ?thesis by blast
        qed
      next
        assume "?C flds"
        then obtain pre post where e: "flds = pre @ fld # post"
          and c: "list_all (\<lambda>g. config_error w sdef g = None) (pre @ [fld])" by blast
        with None have "g # flds = (g # pre) @ fld # post \<and>
            list_all (\<lambda>g. config_error w sdef g = None) ((g # pre) @ [fld])" by simp
        then show "?C (g # flds)" by blast
      qed
      from Cons.IH [OF s2 dist] have "lookups_for fld t2 =
          (if ?ne ds \<and> ?C flds then ?one ds else [])" by (simp only: i)
      with tr f1 C show ?thesis by (simp add: lookups_for_simps)
    qed
  qed
qed

lemma populate_docs_trace_length:
  "populate_docs w sdef flds ds = (res, tr) \<Longrightarrow> length tr \<le> length flds"
proof (induction flds arbitrary: ds res tr)
  case Nil
  then show ?case by simp
next
  case (Cons g flds)
  obtain r1 t1 where s1: "populate_field w sdef g ds = (r1, t1)"
    by (cases "populate_field w sdef g ds")
  from populate_field_trace [OF s1] have l1: "length t1 \<le> 1" by (simp split: if_splits)
  show ?case
  proof (cases r1)
    case (Inl e)
    with s1 Cons.prems l1 show ?thesis by simp
  next
    case (Inr ds1)
    obtain r2 t2 where s2: "populate_docs w sdef flds ds1 = (r2, t2)"
      by (cases "populate_docs w sdef flds ds1")
    with s1 Inr Cons.prems have "tr = t1 @ t2" by simp
    with l1 Cons.IH [OF s2] show ?thesis by simp
  qed
qed

lemma populate_docs_Inr_cfg:
  "populate_docs w sdef flds ds = (Inr ds', tr) \<Longrightarrow>
   list_all (\<lambda>g. config_error w sdef g = None) flds"
proof (induction flds arbitrary: ds tr)
  case Nil
  then show ?case by simp
next
  case (Cons g flds)
  from Cons.prems obtain ds1 tr1 tr2 where
    s1: "populate_field w sdef g ds = (Inr ds1, tr1)" and
    s2: "populate_docs w sdef flds ds1 = (Inr ds', tr2)"
    by (auto split: prod.splits sum.splits)
  from s1 have "config_error w sdef g = None"
    using populate_field_Inr [of w sdef g ds] by blast
  with Cons.IH [OF s2] show ?case by simp
qed

text \<open>
  Claim C4. For every execution of the resolver and every field (the populated fields
  of a query are distinct): at most one lookup is issued for the field, whatever the
  number of documents; none when the deduplicated batch of identifiers is empty; exactly
  one, against the referenced model and with that batch, when populate succeeds and the
  batch is not empty. The batch holds the identifiers gathered over the whole result set,
  each primitive identifier once (and each
  inherited property a field name may read). An execution issues at most as many lookups as it has
  populated fields.
\<close>

theorem populate_one_lookup_per_field:
  assumes run: "populate_docs w sdef flds ds = (res, tr)" and dist: "distinct flds"
  shows "length (lookups_for fld tr) \<le> 1 \<and>
         (new_Set (gather_ids fld ds) = [] \<longrightarrow> lookups_for fld tr = []) \<and>
         (\<forall>ds'. res = Inr ds' \<and> fld \<in> set flds \<and> new_Set (gather_ids fld ds) \<noteq> [] \<longrightarrow>
            lookups_for fld tr = [(fld, ref_name sdef fld, new_Set (gather_ids fld ds))]) \<and>
         set (new_Set (gather_ids fld ds)) = set (gather_ids fld ds) \<and>
         (\<forall>x. primitive x \<or> shared x \<longrightarrow> count_list (new_Set (gather_ids fld ds)) x \<le> 1) \<and>
         length tr \<le> length flds"
proof -
  note tr = populate_docs_trace [OF run dist, of fld]
  have a: "length (lookups_for fld tr) \<le> 1" by (simp add: tr)
  have b: "new_Set (gather_ids fld ds) = [] \<longrightarrow> lookups_for fld tr = []" by (simp add: tr)
  have c: "lookups_for fld tr = [(fld, ref_name sdef fld, new_Set (gather_ids fld ds))]"
    if r: "res = Inr ds'" and m: "fld \<in> set flds" and ne: "new_Set (gather_ids fld ds) \<noteq> []"
    for ds'
  proof -
    from run r have cfg: "list_all (\<lambda>g. config_error w sdef g = None) flds"
      using populate_docs_Inr_cfg by blast
    from m obtain pre post where e: "flds = pre @ fld # post"
      by (auto dest: split_list)
    with cfg have "flds = pre @ fld # post \<and>
        list_all (\<lambda>g. config_error w sdef g = None) (pre @ [fld])" by simp
    then have "\<exists>pre post. flds = pre @ fld # post \<and>
        list_all (\<lambda>g. config_error w sdef g = None) (pre @ [fld])" by blast
    with ne show ?thesis by (simp add: tr)
  qed
  from a b c set_new_Set [of "gather_ids fld ds"] new_Set_dedup [of _ "gather_ids fld ds"]
    populate_docs_trace_length [OF run]
  show ?thesis by blast
qed

text \<open>
  Two authors, two populated fields: one lookup for \<open>books\<close>, at most one for
  \<open>fav\<close>.
\<close>

theorem populate_one_lookup_per_field_witness:
  "populate_docs ex_world ex_author_schema [''books'', ''fav''] ex_authors =
     (Inr ex_populated, ex_lookups) \<and>
   gather_ids ''books'' ex_authors = [VStr ''b1'', VStr ''b2'', VStr ''b3''] \<and>
   lookups_for ''books'' ex_lookups =
     [(''books'', ''Book'', [VStr ''b1'', VStr ''b2'', VStr ''b3''])] \<and>
   length (lookups_for ''fav'' ex_lookups) \<le> 1 \<and> length ex_lookups \<le> 2"
proof -
  have d: "distinct [''books'', ''fav'']" by simp
  have g: "gather_ids ''books'' ex_authors = [VStr ''b1'', VStr ''b2'', VStr ''b3'']"
    by (simp add: ex_defs run_defs)
  then have u: "new_Set (gather_ids ''books'' ex_authors) = [VStr ''b1'', VStr ''b2'', VStr ''b3'']"
    by (simp add: run_defs list_ex_iff)
  have r: "ref_name ex_author_schema ''books'' = ''Book''"
    by (simp add: ref_name_def ex_author_schema_def ex_field_def)
  from populate_one_lookup_per_field [OF ex_run d, of "''books''"] u r
  have a: "lookups_for ''books'' ex_lookups =
     [(''books'', ''Book'', [VStr ''b1'', VStr ''b2'', VStr ''b3''])]" by simp
  from populate_one_lookup_per_field [OF ex_run d, of "''fav''"]
  have b: "length (lookups_for ''fav'' ex_lookups) \<le> 1 \<and> length ex_lookups \<le> 2" by simp
  from a b g ex_run show ?thesis by simp
qed

text \<open>
  A field named \<open>constructor\<close> reads the inherited function from every document: it is
  gathered once, and one lookup is issued.
\<close>

lemma populate_inherited_field:
  "populate_docs ex_world [(''constructor'', ex_field\<lparr>ref := Some ''Book''\<rparr>)] [''constructor'']
     [ex_author1, ex_author2] =
     (Inr [doc_set ex_author1 ''constructor'' VNull, doc_set ex_author2 ''constructor'' VNull],
      [(''constructor'', ''Book'', [VProto ''constructor''])])"
  by (simp add: ex_defs run_defs)

text \<open>
  The builder keeps the populated fields distinct.
\<close>

lemma populate_distinct:
  "distinct (populateFields q) \<Longrightarrow> distinct (populateFields (populate q fld))"
  by (simp add: populate_def)

lemma built_query_distinct:
  "distinct (populateFields (fold (\<lambda>fld q. populate q fld) flds (new_Query a sel sng)))"
proof -
  have "distinct (populateFields q) \<Longrightarrow>
        distinct (populateFields (fold (\<lambda>fld q. populate q fld) flds q))" for q
    by (induction flds arbitrary: q) (simp_all add: populate_distinct)
  then show ?thesis by (simp add: new_Query_def)
qed

subsection \<open>Single mode with sort\<close>

lemma doc_set_same:
  "doc_get d fld = v \<Longrightarrow> v \<noteq> VUndef \<Longrightarrow> \<forall>k. v \<noteq> VProto k \<Longrightarrow> doc_set d fld v = d"
  by (auto simp: doc_get_def inherited_def doc_set_def split: option.splits if_splits
      intro: update_triv)

lemma doc_get_set: "doc_get (doc_set d fld v) g = (if g = fld then v else doc_get d g)"
  by (simp add: doc_get_def doc_set_def update_conv')

lemma populated_value_defined: "populated_value coll u v \<noteq> VUndef"
  by (cases v) (simp_all add: populated_value_def split: option.splits)

text \<open>
  The value the first document receives does not depend on the documents after it,
  as long as its field holds a value.
\<close>

lemma head_value:
  assumes v: "doc_get d fld \<noteq> VUndef"
    and ids: "\<forall>e \<in> set coll. doc_id e \<noteq> VNull"
  shows "(if new_Set (gather_ids fld (d # rest)) = [] then d
          else doc_set d fld (populated_value coll (new_Set (gather_ids fld (d # rest)))
                 (doc_get d fld))) =
         (if new_Set (gather_ids fld [d]) = [] then d
          else doc_set d fld (populated_value coll (new_Set (gather_ids fld [d]))
                 (doc_get d fld)))"
proof -
  let ?v = "doc_get d fld"
  let ?ua = "new_Set (gather_ids fld (d # rest))"
  let ?uo = "new_Set (gather_ids fld [d])"
  have sub: "set (ids_of fld d) \<subseteq> set ?ua" "set ?uo = set (ids_of fld d)"
    by (auto simp: set_new_Set gather_ids_def)
  show ?thesis
  proof (cases "\<exists>xs. ?v = VArr xs")
    case True
    then obtain xs where xs: "?v = VArr xs" by blast
    then have io: "ids_of fld d = xs" by (simp add: ids_of_def)
    have pv: "\<And>u. populated_value coll u ?v = VArr (map VObj (List.map_filter (resolve coll) xs))"
      by (simp add: xs populated_value_def)
    show ?thesis
    proof (cases "xs = []")
      case True
      then have "doc_set d fld (VArr (map VObj (List.map_filter (resolve coll) xs))) = d"
        using xs by (simp add: List.map_filter_def doc_set_same)
      then show ?thesis by (simp add: pv)
    next
      case False
      with sub io have "?ua \<noteq> []" "?uo \<noteq> []" by auto
      then show ?thesis by (simp add: pv)
    qed
  next
    case scalar: False
    then have sc: "\<forall>xs. ?v \<noteq> VArr xs" by simp
    show ?thesis
    proof (cases "?v = VNull")
      case True
      from ids have "resolve coll VNull = None"
        by (auto simp: resolve_def find_None_iff same_value_zero_def)
      then have "\<And>u. populated_value coll u ?v = VNull"
        by (simp add: True populated_value_def)
      moreover from True have "doc_set d fld VNull = d" by (simp add: doc_set_same)
      ultimately show ?thesis by simp
    next
      case False
      with v have "\<not> nullish ?v" by (cases ?v) simp_all
      then have io: "ids_of fld d = [?v]" using sc by (rule ids_of_scalar) simp
      with sub have "?v \<in> set ?ua" "?v \<in> set ?uo" by auto
      then have "?ua \<noteq> []" "?uo \<noteq> []"
        "populated_value coll ?ua ?v = populated_value coll ?uo ?v"
        by (auto simp: populated_value_scalar [OF sc])
      then show ?thesis by simp
    qed
  qed
qed

lemma populate_field_head:
  assumes v: "doc_get d fld \<noteq> VUndef"
    and ids: "\<forall>e \<in> set (ref_collection w sdef fld). doc_id e \<noteq> VNull"
  shows "fst (populate_field w sdef fld [d]) =
     (case fst (populate_field w sdef fld (d # rest)) of
        Inl e \<Rightarrow> Inl e
      | Inr ds' \<Rightarrow> Inr (take 1 ds'))"
proof (cases "config_error w sdef fld")
  case (Some e)
  then show ?thesis by (simp add: populate_field_eq)
next
  case None
  note h = head_value [OF v ids, of rest]
  show ?thesis
  proof (cases "new_Set (gather_ids fld (d # rest)) = []")
    case a: True
    show ?thesis
    proof (cases "new_Set (gather_ids fld [d]) = []")
      case True
      with a None show ?thesis by (simp add: populate_field_eq Let_def)
    next
      case False
      with a None h show ?thesis by (simp add: populate_field_eq Let_def)
    qed
  next
    case a: False
    show ?thesis
    proof (cases "new_Set (gather_ids fld [d]) = []")
      case True
      with a None h show ?thesis by (simp add: populate_field_eq Let_def)
    next
      case False
      with a None h show ?thesis by (simp add: populate_field_eq Let_def)
    qed
  qed
qed

lemma populate_field_head_defined:
  assumes "populate_field w sdef fld (d # rest) = (Inr ds', tr)"
    and "doc_get d g \<noteq> VUndef"
  shows "\<exists>d' rest'. ds' = d' # rest' \<and> doc_get d' g \<noteq> VUndef"
  using assms
  by (auto simp: populate_field_eq Let_def doc_get_set populated_value_defined
      split: option.splits if_splits)

lemma populate_docs_head:
  assumes "\<forall>g \<in> set flds. doc_get d g \<noteq> VUndef"
    and "\<forall>g \<in> set flds. \<forall>e \<in> set (ref_collection w sdef g). doc_id e \<noteq> VNull"
  shows "fst (populate_docs w sdef flds [d]) =
     (case fst (populate_docs w sdef flds (d # rest)) of
        Inl e \<Rightarrow> Inl e
      | Inr ds' \<Rightarrow> Inr (take 1 ds'))"
  using assms
proof (induction flds arbitrary: d rest)
  case Nil
  then show ?case by simp
next
  case (Cons g flds)
  from Cons.prems have v: "doc_get d g \<noteq> VUndef"
    and ids: "\<forall>e \<in> set (ref_collection w sdef g). doc_id e \<noteq> VNull"
    by simp_all
  note h = populate_field_head [OF v ids, of rest]
  obtain r1 t1 where s1: "populate_field w sdef g (d # rest) = (r1, t1)"
    by (cases "populate_field w sdef g (d # rest)")
  obtain r0 t0 where s0: "populate_field w sdef g [d] = (r0, t0)"
    by (cases "populate_field w sdef g [d]")
  show ?case
  proof (cases r1)
    case (Inl e)
    with h s1 s0 show ?thesis by simp
  next
    case (Inr ds1)
    have "\<forall>h \<in> set flds. \<exists>d1 rest1. ds1 = d1 # rest1 \<and> doc_get d1 h \<noteq> VUndef"
      using populate_field_head_defined [OF s1 [unfolded Inr]] Cons.prems(1) by simp
    moreover from populate_field_length [OF s1 [unfolded Inr]] obtain d1 rest1
      where ds1: "ds1 = d1 # rest1" by (cases ds1) simp_all
    ultimately have d1: "\<forall>h \<in> set flds. doc_get d1 h \<noteq> VUndef" by simp
    from h s1 s0 Inr ds1 have r0: "r0 = Inr [d1]" by simp
    from Cons.prems(2) have ids': "\<forall>g \<in> set flds. \<forall>e \<in> set (ref_collection w sdef g). doc_id e \<noteq> VNull"
      by simp
    have L: "fst (populate_docs w sdef (g # flds) [d]) = fst (populate_docs w sdef flds [d1])"
      using s0 r0 by (simp split: prod.splits)
    have R: "fst (populate_docs w sdef (g # flds) (d # rest)) =
        fst (populate_docs w sdef flds (d1 # rest1))"
      using s1 Inr ds1 by (simp split: prod.splits)
    show ?thesis unfolding L R by (rule Cons.IH [OF d1 ids'])
  qed
qed

lemma fetch_limit_one:
  "limitCount q = None \<Longrightarrow> fetch w (q\<lparr>single := b, limitCount := Some 1\<rparr>) = take 1 (fetch w q)"
  by (simp add: fetch_def buildCursor_def cursor_exec_def Let_def)

text \<open>
  Claim C3, as amended. For every filter, sort specification and populated fields, a
  single-mode query with sort set (and neither skip nor limit) returns what the many-mode
  query with the same filter, sort, populated fields and limit 1 returns as its first
  element, or null when no document matches, and fails as that query fails, provided the
  first match in sort order has every populated field (as an identifier, an array or
  null) and no referenced collection holds a document whose \<open>_id\<close> is null.
\<close>

theorem findOne_sort_as_limit_one:
  assumes srt: "sortObj q = Some s" and skp: "skipCount q = None" and lim: "limitCount q = None"
    and present: "\<forall>d \<in> set (take 1 (fetch w q)). \<forall>g \<in> set (populateFields q).
                    doc_get d g \<noteq> VUndef"
    and ids: "\<forall>g \<in> set (populateFields q).
                \<forall>e \<in> set (ref_collection w (schema (deref w (qmodel q))) g). doc_id e \<noteq> VNull"
  shows "fst (exec w (q\<lparr>single := True\<rparr>)) =
         first_or_null (fst (exec w (q\<lparr>single := False, limitCount := Some 1\<rparr>)))"
proof -
  let ?sdef = "schema (deref w (qmodel q))"
  let ?flds = "populateFields q"
  have one: "fst (exec w (q\<lparr>single := True\<rparr>)) =
      (case fst (populate_docs w ?sdef ?flds (fetch w q)) of
         Inl e \<Rightarrow> Inl e
       | Inr ds \<Rightarrow> Inr (case ds of [] \<Rightarrow> VNull | d # _ \<Rightarrow> VObj d))"
    using srt by (simp add: exec_def execOne_def execMany_def fetch_def buildCursor_def
        split: prod.splits sum.splits)
  have many: "fst (exec w (q\<lparr>single := False, limitCount := Some 1\<rparr>)) =
      (case fst (populate_docs w ?sdef ?flds (take 1 (fetch w q))) of
         Inl e \<Rightarrow> Inl e
       | Inr ds \<Rightarrow> Inr (VArr (map VObj ds)))"
    using fetch_limit_one [OF lim, of w False]
    by (simp add: exec_def execMany_def split: prod.splits sum.splits)
  show ?thesis
  proof (cases "fetch w q")
    case Nil
    then show ?thesis unfolding one many
      by (simp split: sum.splits list.splits) 
  next
    case (Cons d rest)
    with present have v: "\<forall>g \<in> set ?flds. doc_get d g \<noteq> VUndef" by simp
    note h = populate_docs_head [OF v ids, of rest]
    obtain r1 t1 where s1: "populate_docs w ?sdef ?flds (d # rest) = (r1, t1)"
      by (cases "populate_docs w ?sdef ?flds (d # rest)")
    show ?thesis
    proof (cases r1)
      case (Inl e)
      with h s1 Cons show ?thesis unfolding one many by simp
    next
      case (Inr ds1)
      from populate_docs_length [OF s1 [unfolded Inr]] obtain d1 rest1
        where ds1: "ds1 = d1 # rest1" by (cases ds1) simp_all
      with h s1 Cons Inr show ?thesis unfolding one many by simp
    qed
  qed
qed

text \<open>
  \<open>findOne\<close> with sort and populate of \<open>books\<close>: the first author has the field.
\<close>

theorem findOne_sort_as_limit_one_witness:
  "fst (exec ex_world ((sort_q (populate (findOne 0 ex_all) ''books'') (Some ex_sort))
          \<lparr>single := True\<rparr>)) =
   first_or_null (fst (exec ex_world ((sort_q (populate (findOne 0 ex_all) ''books'') (Some ex_sort))
          \<lparr>single := False, limitCount := Some 1\<rparr>))) \<and>
   fst (exec ex_world (sort_q (populate (findOne 0 ex_all) ''books'') (Some ex_sort))) =
     Inr (VObj [(''_id'', VStr ''a1''), (''name'', VStr ''Kafka''),
                (''books'', VArr [VObj ex_book1, VObj ex_book3])]) \<and>
   (sort_q (populate (findOne 0 ex_all) ''books'') (Some ex_sort))
          \<lparr>single := False, limitCount := Some 1\<rparr> =
     limit (sort_q (populate (find 0 ex_all) ''books'') (Some ex_sort)) 1"
proof -
  let ?q = "sort_q (populate (findOne 0 ex_all) ''books'') (Some ex_sort)"
  have s: "sortObj ?q = Some ex_sort" "skipCount ?q = None" "limitCount ?q = None"
    by (simp_all add: sort_q_def populate_def findOne_def new_Query_def)
  have f: "fetch ex_world ?q = ex_authors"
    by (simp add: ex_defs run_defs)
  have p: "\<forall>d \<in> set (take 1 (fetch ex_world ?q)). \<forall>g \<in> set (populateFields ?q).
             doc_get d g \<noteq> VUndef"
    by (simp add: f) (simp add: ex_defs run_defs)
  have i: "\<forall>g \<in> set (populateFields ?q).
             \<forall>e \<in> set (ref_collection ex_world (schema (deref ex_world (qmodel ?q))) g).
               doc_id e \<noteq> VNull"
    by (simp add: sort_q_def populate_def findOne_def new_Query_def)
       (simp add: ref_collection_def ex_defs deref_def doc_id_def doc_get_def inherited_def object_prototype_names_def)
  have v: "fst (exec ex_world ?q) =
     Inr (VObj [(''_id'', VStr ''a1''), (''name'', VStr ''Kafka''),
                (''books'', VArr [VObj ex_book1, VObj ex_book3])])"
    by (simp add: ex_defs run_defs)
  have b: "?q\<lparr>single := False, limitCount := Some 1\<rparr> =
     limit (sort_q (populate (find 0 ex_all) ''books'') (Some ex_sort)) 1"
    by (simp add: sort_q_def populate_def findOne_def find_def limit_def new_Query_def)
  from findOne_sort_as_limit_one [OF s p i] v b show ?thesis by simp
qed

text \<open>
  Claim C3 as stated fails: the first author has no \<open>fav\<close> and the second has one.
  \<open>findOne\<close> with sort populates both and returns the first with \<open>fav: null\<close>; the query
  with limit 1 populates the first alone and returns it without the field.
\<close>

theorem findOne_sort_counterexample:
  "fst (exec ex_world (sort_q (populate (findOne 0 ex_all) ''fav'') (Some ex_sort))) =
     Inr (VObj [(''_id'', VStr ''a1''), (''name'', VStr ''Kafka''),
                (''books'', VArr [VStr ''b1'', VStr ''b2'', VStr ''b3'']), (''fav'', VNull)]) \<and>
   first_or_null
     (fst (exec ex_world (limit (sort_q (populate (find 0 ex_all) ''fav'') (Some ex_sort)) 1))) =
     Inr (VObj [(''_id'', VStr ''a1''), (''name'', VStr ''Kafka''),
                (''books'', VArr [VStr ''b1'', VStr ''b2'', VStr ''b3''])])"
  by (simp add: ex_defs run_defs)


end
